theory Spec2Isabelle
  imports Main "HOL-Library.Word" "HOL-Library.Sublist"
begin

section \<open>dl-pipe: a resumable HTTP download, embedded in HOL\<close>

text \<open>
  The Go package \<^verbatim>\<open>dlpipe\<close> streams an HTTP resource into a writer and resumes with a
  range request after a broken transfer. This theory embeds the package function by
  function. Go's \<^verbatim>\<open>int\<close>, \<^verbatim>\<open>int64\<close>, \<^verbatim>\<open>uint64\<close> and \<^verbatim>\<open>time.Duration\<close> are 64-bit words
  (a 64-bit platform): \<open>+\<close> and \<open>*\<close> wrap, \<open>\<le>s\<close> and \<open><s\<close> compare signed values, \<open>\<le>\<close> and
  \<open><\<close> unsigned ones. A conversion between \<^verbatim>\<open>int64\<close> and \<^verbatim>\<open>uint64\<close> keeps the bits, so it
  is the identity on words.
\<close>

type_synonym int64 = "64 word"
type_synonym uint64 = "64 word"
type_synonym duration = "64 word"
type_synonym bytes = "8 word list"

subsection \<open>Errors (errors.go)\<close>

text \<open>
  \<^verbatim>\<open>fmt.Errorf\<close> values are told apart by the place that builds them, with the arguments
  of the format string. \<open>ErrNonRetryable\<close> is the wrapper of \<^verbatim>\<open>NonRetryableWrapf\<close>,
  \<open>ErrPlain\<close> an error returned as \<^verbatim>\<open>fmt.Errorf\<close> built it, \<open>ErrContext\<close> the value of
  \<^verbatim>\<open>ctx.Err()\<close>.
\<close>

datatype failure =
    CreateRequest
  | DoRequest
  | BadGateway
  | StatusFirstRead int
  | StatusSubsequentRead int
  | ParseContentRange
  | RangeStart uint64 int64
  | RangeEnd int64 int64
  | RangeTotal int64 int64

datatype error =
    ErrRetryParametersExceeded
  | ErrHashMismatch (ExpectedHash: bytes) (GivenHash: bytes)
  | ErrNonRetryable failure
  | ErrPlain failure
  | ErrContext

subsection \<open>Retry policy (RetryParameters, Wait)\<close>

definition oneMB :: uint64 where
  "oneMB = push_bit 20 1"

record RetryParameters =
  MaxRetries :: int64
  BaseWait :: duration
  WaitMultiplier :: int64
  currentWait :: duration
  retryCtr :: int64
  prevPos :: uint64

definition DefaultRetryParameters :: RetryParameters where
  "DefaultRetryParameters =
     \<lparr>MaxRetries = 5, BaseWait = 250 * 1000000, WaitMultiplier = 2,
      currentWait = 0, retryCtr = 0, prevPos = 0\<rparr>"

text \<open>
  The result of one call of \<^verbatim>\<open>Wait\<close>: the error returned, the duration handed to
  \<^verbatim>\<open>time.After\<close> (\<open>None\<close> when the call returns before the \<^verbatim>\<open>select\<close>), and the
  parameters as the call leaves them. \<open>cancelled\<close> says which case of the \<^verbatim>\<open>select\<close> is
  taken: \<open>True\<close> is \<^verbatim>\<open>ctx.Done()\<close>.
\<close>

record wait_result =
  waitErr :: "error option"
  timer :: "duration option"
  params :: RetryParameters

text \<open>The condition of the \<^verbatim>\<open>if\<close> that assigns \<^verbatim>\<open>BaseWait\<close> to \<^verbatim>\<open>currentWait\<close>.\<close>

definition resetsWait :: "RetryParameters \<Rightarrow> uint64 \<Rightarrow> bool" where
  "resetsWait p currentPosition \<longleftrightarrow>
     currentWait p = 0 \<or> (prevPos p \<noteq> 0 \<and> prevPos p + oneMB < currentPosition)"

definition Wait :: "bool \<Rightarrow> uint64 \<Rightarrow> RetryParameters \<Rightarrow> wait_result" where
  "Wait cancelled currentPosition p =
     (if MaxRetries p \<le>s retryCtr p
      then \<lparr>waitErr = Some ErrRetryParametersExceeded, timer = None, params = p\<rparr>
      else
        let p1 = (if resetsWait p currentPosition then p\<lparr>currentWait := BaseWait p\<rparr> else p);
            p2 = p1\<lparr>prevPos := currentPosition\<rparr>;
            p3 = p2\<lparr>retryCtr := retryCtr p2 + 1,
                    currentWait := currentWait p2 * WaitMultiplier p2\<rparr>
        in \<lparr>waitErr = (if cancelled then Some ErrContext else None),
            timer = Some (currentWait p2), params = p3\<rparr>)"

text \<open>A sequence of calls on the same parameters, each with its \<^verbatim>\<open>select\<close> case and position.\<close>

fun Waits :: "(bool \<times> uint64) list \<Rightarrow> RetryParameters \<Rightarrow> RetryParameters" where
  "Waits [] p = p"
| "Waits ((cancelled, pos) # cs) p = Waits cs (params (Wait cancelled pos p))"

text \<open>
  The rule of the specification for resetting the backoff, in its words: this is the first
  wait ever (no wait has been counted), or the position has advanced by more than 1 MiB
  since the position recorded at the previous wait.
\<close>

definition spec_reset_due :: "RetryParameters \<Rightarrow> uint64 \<Rightarrow> bool" where
  "spec_reset_due p currentPosition \<longleftrightarrow>
     retryCtr p = 0 \<or> unat (prevPos p) + 2 ^ 20 < unat currentPosition"


subsection \<open>What the package is given: HTTP, hashers, library calls\<close>

text \<open>
  A request is the URL and the calls of \<^verbatim>\<open>req.Header.Set\<close> made on it, in order. A
  response carries what \<^verbatim>\<open>runInner\<close> reads of it: the status code, the declared content
  length, \<^verbatim>\<open>Header.Get\<close>, and the body. A body is the chunks its \<^verbatim>\<open>Read\<close> delivers and
  whether reading ends in an error rather than in \<^verbatim>\<open>io.EOF\<close>. A client answers the
  \<open>i\<close>-th call of \<^verbatim>\<open>Do\<close> of a session (counted from 0) with an error or a response.
\<close>

record request =
  reqURL :: string
  reqHeaderSet :: "(string \<times> string) list"

record body =
  chunks :: "bytes list"
  readErr :: bool

record response =
  StatusCode :: int
  ContentLength :: int64
  HeaderGet :: "string \<Rightarrow> string"
  Body :: body

datatype http_result = DoError | Response response

type_synonym client = "nat \<Rightarrow> request \<Rightarrow> http_result"

abbreviation StatusOK :: int where "StatusOK \<equiv> 200"
abbreviation StatusPartialContent :: int where "StatusPartialContent \<equiv> 206"
abbreviation StatusBadGateway :: int where "StatusBadGateway \<equiv> 502"

definition rangeHeader :: string where
  "rangeHeader = ''Range''"

definition contentRangeHeader :: string where
  "contentRangeHeader = ''Content-Range''"

text \<open>
  A \<^verbatim>\<open>hash.Hash\<close> is an object on the heap, named by its address: the digest function of
  its algorithm and the bytes written to it so far. \<^verbatim>\<open>Sum(nil)\<close> is the digest of these
  bytes and does not change the object; \<^verbatim>\<open>Write\<close> never fails.
\<close>

record hasher =
  digest :: "bytes \<Rightarrow> bytes"
  absorbed :: bytes

definition Sum :: "hasher \<Rightarrow> bytes" where
  "Sum h = digest h (absorbed h)"

text \<open>
  The library calls and the surroundings the package depends on are parameters:
  whether \<^verbatim>\<open>http.NewRequestWithContext\<close> accepts a URL, \<^verbatim>\<open>strings.ToLower\<close>,
  \<^verbatim>\<open>fmt.Sscanf\<close> with three integer operands (input, then format; \<open>None\<close> is an error),
  the client \<^verbatim>\<open>DownloadURL\<close> builds by default, and whether the context is cancelled
  before the timer of the wait that follows the \<open>i\<close>-th attempt fires.
\<close>

record world =
  newRequestOK :: "string \<Rightarrow> bool"
  ToLower :: "string \<Rightarrow> string"
  Sscanf :: "string \<Rightarrow> string \<Rightarrow> (int64 \<times> int64 \<times> int64) option"
  defaultClient :: client
  ctxDone :: "nat \<Rightarrow> bool"

text \<open>\<^verbatim>\<open>fmt.Sprintf("%d", n)\<close> for an unsigned number.\<close>

fun decimal :: "nat \<Rightarrow> string" where
  "decimal n =
     (if n < 10 then [''0123456789'' ! n]
      else decimal (n div 10) @ [''0123456789'' ! (n mod 10)])"

declare decimal.simps [simp del]

subsection \<open>The downloader\<close>

text \<open>
  The closure that \<^verbatim>\<open>WithExpectedHash\<close> appends to \<^verbatim>\<open>finalFuncs\<close> captures the hasher and
  the expected digest.
\<close>

datatype finalFunc = ExpectedHashCheck nat bytes

text \<open>
  The struct \<^verbatim>\<open>downloader\<close>. \<open>hashers\<close> is \<^verbatim>\<open>tmpWriter\<close>: the caller's writer followed by
  the hashers that the nested \<^verbatim>\<open>io.MultiWriter\<close>s fan out to, in the order of attachment.
  \<open>count\<close> is the counter of the \<^verbatim>\<open>datacounter.WriterCounter\<close> in \<^verbatim>\<open>writer\<close>. The
  map \<open>headers\<close> is the list of its entries in the order the \<^verbatim>\<open>range\<close> loop of
  \<^verbatim>\<open>runInner\<close> visits them. The progress callback is an opaque name, \<open>None\<close> for \<^verbatim>\<open>nil\<close>.
\<close>

record downloader =
  url :: string
  count :: uint64
  httpClient :: client
  retryParameters :: RetryParameters
  hashers :: "nat list"
  finalFuncs :: "finalFunc list"
  headers :: "(string \<times> string) list"
  progressFunc :: "nat option"
  progressInterval :: duration
  contentLength :: int64

text \<open>
  A session is the downloader together with the objects it writes to and a log of what it
  does: the bytes committed to the caller's writer (which accepts every write, as
  \<^verbatim>\<open>io.Discard\<close> or a buffer does), the heap of hashers, the requests sent, the positions
  \<^verbatim>\<open>Wait\<close> was called with, the timers started, the attempts whose body was returned to
  \<^verbatim>\<open>run\<close>, the attempts whose body was closed, and the final functions called.
\<close>

record session = downloader +
  sink :: bytes
  heap :: "nat \<Rightarrow> hasher"
  requests :: "request list"
  waitCalls :: "uint64 list"
  timers :: "duration list"
  opened :: "nat list"
  closed :: "nat list"
  finalCalls :: "finalFunc list"

subsection \<open>Options (DownloadOpt)\<close>

datatype DownloadOpt =
    WithHTTPClient client
  | WithHasher nat
  | WithExpectedHash nat bytes
  | WithHeaders "(string \<times> string) list"
  | WithProgressFunc "nat option" duration
  | WithRetryParameters RetryParameters

fun applyOpt :: "DownloadOpt \<Rightarrow> session \<Rightarrow> session" where
  "applyOpt (WithHTTPClient c) d = d\<lparr>httpClient := c\<rparr>"
| "applyOpt (WithHasher h) d = d\<lparr>hashers := hashers d @ [h]\<rparr>"
| "applyOpt (WithExpectedHash h expected) d =
     d\<lparr>hashers := hashers d @ [h],
       finalFuncs := finalFuncs d @ [ExpectedHashCheck h expected]\<rparr>"
| "applyOpt (WithHeaders hs) d = d\<lparr>headers := hs\<rparr>"
| "applyOpt (WithProgressFunc f interval) d = d\<lparr>progressFunc := f, progressInterval := interval\<rparr>"
| "applyOpt (WithRetryParameters ps) d = d\<lparr>retryParameters := ps\<rparr>"

text \<open>
  A value of type \<^verbatim>\<open>DownloadOpt\<close> is a function value or \<^verbatim>\<open>nil\<close> (\<open>None\<close>). Calling
  \<^verbatim>\<open>nil\<close> panics: the call has no result.
\<close>

definition callOpt :: "DownloadOpt option \<Rightarrow> session \<Rightarrow> session option" where
  "callOpt opt d = (case opt of None \<Rightarrow> None | Some f \<Rightarrow> Some (applyOpt f d))"

subsection \<open>Writing and copying\<close>

text \<open>
  One \<^verbatim>\<open>Write\<close> on \<^verbatim>\<open>d.writer\<close>: the multi-writer hands the buffer to the caller's writer
  and then to each hasher in turn, and the counter grows by the number of bytes.
\<close>

definition absorb :: "bytes \<Rightarrow> nat \<Rightarrow> (nat \<Rightarrow> hasher) \<Rightarrow> (nat \<Rightarrow> hasher)" where
  "absorb p h hp = hp(h := (hp h)\<lparr>absorbed := absorbed (hp h) @ p\<rparr>)"

definition Write :: "bytes \<Rightarrow> session \<Rightarrow> session" where
  "Write p d =
     d\<lparr>sink := sink d @ p,
       heap := fold (absorb p) (hashers d) (heap d),
       count := count d + of_nat (length p)\<rparr>"

text \<open>\<^verbatim>\<open>io.Copy(d.writer, body)\<close>: every chunk read is written, an empty read is skipped.\<close>

fun ioCopy :: "bytes list \<Rightarrow> session \<Rightarrow> session" where
  "ioCopy [] d = d"
| "ioCopy (c # cs) d = ioCopy cs (if c = [] then d else Write c d)"

subsection \<open>runInner\<close>

definition newRequest :: "session \<Rightarrow> request" where
  "newRequest d =
     \<lparr>reqURL = url d,
      reqHeaderSet = headers d @
        (if 0 < count d
         then [(rangeHeader, ''bytes='' @ decimal (unat (count d)) @ ''-'')] else [])\<rparr>"

definition validateRange :: "world \<Rightarrow> nat \<Rightarrow> response \<Rightarrow> session \<Rightarrow> (error + body) \<times> session" where
  "validateRange w i resp d =
     (let downloadFrom = count d in
      case Sscanf w (ToLower w (HeaderGet resp contentRangeHeader)) ''bytes %d-%d/%d'' of
        None \<Rightarrow> (Inl (ErrNonRetryable ParseContentRange), d\<lparr>closed := closed d @ [i]\<rparr>)
      | Some (respStart, respEnd, respTotal) \<Rightarrow>
          if respStart \<noteq> downloadFrom
          then (Inl (ErrNonRetryable (RangeStart downloadFrom respStart)),
                d\<lparr>closed := closed d @ [i]\<rparr>)
          else if respEnd \<noteq> contentLength d - 1
          then (Inl (ErrNonRetryable (RangeEnd (contentLength d - 1) respEnd)),
                d\<lparr>closed := closed d @ [i]\<rparr>)
          else if respTotal \<noteq> contentLength d
          then (Inl (ErrNonRetryable (RangeTotal (contentLength d - 1) respTotal)),
                d\<lparr>closed := closed d @ [i]\<rparr>)
          else (Inr (Body resp), d))"

definition runInner :: "world \<Rightarrow> nat \<Rightarrow> session \<Rightarrow> (error + body) \<times> session" where
  "runInner w i d =
     (if \<not> newRequestOK w (url d) then (Inl (ErrNonRetryable CreateRequest), d)
      else
        let req = newRequest d;
            d1 = d\<lparr>requests := requests d @ [req]\<rparr>
        in case httpClient d i req of
             DoError \<Rightarrow> (Inl (ErrPlain DoRequest), d1)
           | Response resp \<Rightarrow>
               if StatusCode resp = StatusBadGateway then (Inl (ErrPlain BadGateway), d1)
               else if contentLength d1 = 0 then
                 (let d2 = d1\<lparr>contentLength := ContentLength resp\<rparr> in
                  if StatusCode resp \<noteq> StatusOK
                  then (Inl (ErrNonRetryable (StatusFirstRead (StatusCode resp))), d2)
                  else (Inr (Body resp), d2))
               else if StatusCode resp \<noteq> StatusPartialContent
               then (Inl (ErrNonRetryable (StatusSubsequentRead (StatusCode resp))), d1)
               else validateRange w i resp d1)"

subsection \<open>run\<close>

text \<open>
  One pass through the body of the \<^verbatim>\<open>for\<close> loop of \<^verbatim>\<open>run\<close> ends in \<^verbatim>\<open>return err\<close>, in
  \<^verbatim>\<open>break\<close>, or at the end of the body, from where the loop goes round again.
\<close>

datatype step = Return error | Break | Continue

definition iteration :: "world \<Rightarrow> nat \<Rightarrow> session \<Rightarrow> step \<times> session" where
  "iteration w i d =
     (case runInner w i d of
        (Inl err, d1) \<Rightarrow> (Return err, d1)
      | (Inr b, d1) \<Rightarrow>
          let d2 = ioCopy (chunks b) (d1\<lparr>opened := opened d1 @ [i]\<rparr>) in
          if \<not> readErr b then (Break, d2)
          else
            (let r = Wait (ctxDone w i) (count d2) (retryParameters d2);
                 d3 = d2\<lparr>retryParameters := params r,
                         waitCalls := waitCalls d2 @ [count d2],
                         timers := timers d2 @ (case timer r of None \<Rightarrow> [] | Some t \<Rightarrow> [t])\<rparr>
             in (case waitErr r of
                   Some err \<Rightarrow> (Return err, d3)
                 | None \<Rightarrow> (Continue, d3))))"

text \<open>The budget left: how far the counter is below the maximum.\<close>

definition budget :: "RetryParameters \<Rightarrow> nat" where
  "budget p = nat (sint (MaxRetries p) - sint (retryCtr p))"

text \<open>
  The loop of \<^verbatim>\<open>run\<close>, from attempt \<open>i\<close> on. It goes round again only after a call of
  \<^verbatim>\<open>Wait\<close> that returned no error, and such a call uses up one unit of the budget: the
  loop ends on every input.
\<close>

function run_loop :: "world \<Rightarrow> nat \<Rightarrow> session \<Rightarrow> error option \<times> session" where
  "run_loop w i d =
     (case iteration w i d of
        (Return err, d') \<Rightarrow> (Some err, d')
      | (Break, d') \<Rightarrow> (None, d')
      | (Continue, d') \<Rightarrow> run_loop w (Suc i) d')"
  by pat_completeness auto
termination
proof (relation "measure (\<lambda>(w, i, d). budget (retryParameters d))")
  show "wf (measure (\<lambda>(w :: world, i :: nat, d :: session). budget (retryParameters d)))"
    by simp
next
  fix w :: world and i :: nat and d d' :: session and st :: step
  assume it: "(st, d') = iteration w i d" and st: "st = Continue"
  have inner: "retryParameters (snd (runInner w i d)) = retryParameters d"
    by (simp add: runInner_def validateRange_def Let_def
        split: http_result.splits option.splits prod.splits)
  have copy: "retryParameters (ioCopy cs e) = retryParameters e" for cs and e :: session
    by (induction cs arbitrary: e) (simp_all add: Write_def)
  obtain b d1 where ri: "runInner w i d = (Inr b, d1)"
    and waited: "waitErr (Wait (ctxDone w i) (count (ioCopy (chunks b) (d1\<lparr>opened := opened d1 @ [i]\<rparr>)))
                   (retryParameters d1)) = None"
    and d': "retryParameters d' =
               params (Wait (ctxDone w i) (count (ioCopy (chunks b) (d1\<lparr>opened := opened d1 @ [i]\<rparr>)))
                 (retryParameters d1))"
    using it st
    by (auto simp: iteration_def Let_def copy split: prod.splits sum.splits if_splits option.splits)
  have same: "retryParameters d1 = retryParameters d"
    using inner ri by simp
  let ?p = "retryParameters d"
  have below: "sint (retryCtr ?p) < sint (MaxRetries ?p)"
    using waited same by (auto simp: Wait_def Let_def word_sle_eq split: if_splits)
  have ctr: "retryCtr (retryParameters d') = retryCtr ?p + 1"
    and mx: "MaxRetries (retryParameters d') = MaxRetries ?p"
    using below d' same by (simp_all add: Wait_def Let_def word_sle_eq)
  have "sint (MaxRetries ?p) < 2 ^ 63"
    using sint_lt [of "MaxRetries ?p"] by simp
  moreover have "- (2 ^ 63) \<le> sint (retryCtr ?p)"
    using sint_ge [of "retryCtr ?p"] by simp
  ultimately have "signed_take_bit 63 (sint (retryCtr ?p) + 1) = sint (retryCtr ?p) + 1"
    using below by (intro signed_take_bit_int_eq_self) auto
  then have "sint (retryCtr ?p + 1) = sint (retryCtr ?p) + 1"
    by (simp add: sint_word_ariths)
  then have "budget (retryParameters d') < budget ?p"
    using below ctr mx by (simp add: budget_def)
  then show "((w, Suc i, d'), (w, i, d)) \<in> measure (\<lambda>(w, i, d). budget (retryParameters d))"
    by simp
qed

declare run_loop.simps [simp del]

subsection \<open>Final functions, run, DownloadURL\<close>

definition callFinal :: "(nat \<Rightarrow> hasher) \<Rightarrow> finalFunc \<Rightarrow> error option" where
  "callFinal hp f =
     (case f of ExpectedHashCheck h expected \<Rightarrow>
        let givenHash = Sum (hp h) in
        if givenHash \<noteq> expected then Some (ErrHashMismatch expected givenHash) else None)"

text \<open>The loop over \<^verbatim>\<open>d.finalFuncs\<close>: the functions are called in order up to the first error.\<close>

fun runFinalFuncs :: "finalFunc list \<Rightarrow> session \<Rightarrow> error option \<times> session" where
  "runFinalFuncs [] d = (None, d)"
| "runFinalFuncs (f # fs) d =
     (case callFinal (heap d) f of
        Some err \<Rightarrow> (Some err, d\<lparr>finalCalls := finalCalls d @ [f]\<rparr>)
      | None \<Rightarrow> runFinalFuncs fs (d\<lparr>finalCalls := finalCalls d @ [f]\<rparr>))"

text \<open>
  The deferred \<^verbatim>\<open>body.Close()\<close> calls run when \<^verbatim>\<open>run\<close> returns, last deferred first.
\<close>

definition closeDeferred :: "session \<Rightarrow> session" where
  "closeDeferred d = d\<lparr>closed := closed d @ rev (opened d)\<rparr>"

text \<open>
  A call either returns, with its error and the session as it leaves it, or the program
  panics.
\<close>

datatype outcome = Panic | Returned "error option" session

text \<open>
  With a progress callback set, \<^verbatim>\<open>run\<close> first starts the goroutine
  \<^verbatim>\<open>progressReportLoop\<close>. Its first statement is \<^verbatim>\<open>time.NewTicker(d.progressInterval)\<close>,
  which panics for an interval that is not positive; a panic in a goroutine ends the
  program, whatever the loop has done by then, so the call has no result. With a positive
  interval the goroutine only reads the counter and the content length for the callback
  until \<^verbatim>\<open>run\<close> cancels its context on return; its ticks are not part of the model.
\<close>

definition progressReportLoop_panics :: "session \<Rightarrow> bool" where
  "progressReportLoop_panics d \<longleftrightarrow> progressFunc d \<noteq> None \<and> progressInterval d \<le>s 0"

definition run :: "world \<Rightarrow> session \<Rightarrow> outcome" where
  "run w d =
     (if progressReportLoop_panics d then Panic
      else
        (case run_loop w 0 d of
           (Some err, d1) \<Rightarrow> Returned (Some err) (closeDeferred d1)
         | (None, d1) \<Rightarrow>
             (case runFinalFuncs (finalFuncs d1) d1 of
                (res, d2) \<Rightarrow> Returned res (closeDeferred d2))))"

text \<open>
  The loop over \<^verbatim>\<open>opts\<close> in \<^verbatim>\<open>DownloadURL\<close>; \<open>None\<close> is the panic of calling a \<^verbatim>\<open>nil\<close>
  function value.
\<close>

fun applyOpts :: "DownloadOpt option list \<Rightarrow> session \<Rightarrow> session option" where
  "applyOpts [] d = Some d"
| "applyOpts (opt # opts) d =
     (if opt = None then applyOpts opts d
      else case callOpt opt d of None \<Rightarrow> None | Some d' \<Rightarrow> applyOpts opts d')"

text \<open>
  The downloader that \<^verbatim>\<open>DownloadURL\<close> starts from, with the caller's writer still empty of
  this session's bytes and the heap as the caller hands it over.
\<close>

definition newDownloader :: "world \<Rightarrow> (nat \<Rightarrow> hasher) \<Rightarrow> string \<Rightarrow> session" where
  "newDownloader w hp u =
     \<lparr>url = u, count = 0, httpClient = defaultClient w,
      retryParameters = DefaultRetryParameters,
      hashers = [], finalFuncs = [], headers = [],
      progressFunc = None, progressInterval = 0, contentLength = 0,
      sink = [], heap = hp, requests = [], waitCalls = [], timers = [],
      opened = [], closed = [], finalCalls = []\<rparr>"

definition DownloadURL ::
    "world \<Rightarrow> (nat \<Rightarrow> hasher) \<Rightarrow> string \<Rightarrow> DownloadOpt option list \<Rightarrow> outcome" where
  "DownloadURL w hp u opts =
     (case applyOpts opts (newDownloader w hp u) of
        None \<Rightarrow> Panic
      | Some d \<Rightarrow> run w (d\<lparr>count := 0\<rparr>))"

subsection \<open>Classifying errors; the state at the start of an attempt\<close>

text \<open>What \<^verbatim>\<open>errors.As(err, &ErrNonRetryable{})\<close> reports.\<close>

fun nonRetryable :: "error \<Rightarrow> bool" where
  "nonRetryable (ErrNonRetryable f) = True"
| "nonRetryable e = False"

text \<open>
  The session as attempt \<open>n\<close> of the loop finds it, when the loop gets that far: \<open>None\<close>
  when it has ended before.
\<close>

fun stateAt :: "world \<Rightarrow> session \<Rightarrow> nat \<Rightarrow> session option" where
  "stateAt w d 0 = Some d"
| "stateAt w d (Suc n) =
     (case stateAt w d n of
        None \<Rightarrow> None
      | Some d' \<Rightarrow> (case iteration w n d' of (Continue, d'') \<Rightarrow> Some d'' | _ \<Rightarrow> None))"

text \<open>
  What \<^verbatim>\<open>net/http\<close> guarantees of a response that declares content length 0: its body
  delivers no byte and reading it ends in \<^verbatim>\<open>io.EOF\<close>.
\<close>

definition framed :: "http_result \<Rightarrow> bool" where
  "framed r =
     (case r of
        DoError \<Rightarrow> True
      | Response resp \<Rightarrow>
          if ContentLength resp = 0
          then concat (chunks (Body resp)) = [] \<and> \<not> readErr (Body resp) else True)"

text \<open>
  Once bytes have been committed, a content length has been recorded: the test
  \<^verbatim>\<open>d.contentLength == 0\<close> of \<^verbatim>\<open>runInner\<close> then tells a resumed attempt from the first.
\<close>

definition resumable :: "session \<Rightarrow> bool" where
  "resumable d \<longleftrightarrow> (if contentLength d = 0 then count d = 0 else True)"

text \<open>The hashers an option attaches and the final functions it registers, in order.\<close>

fun attaches :: "DownloadOpt option \<Rightarrow> nat list" where
  "attaches (Some (WithHasher h)) = [h]"
| "attaches (Some (WithExpectedHash h expected)) = [h]"
| "attaches opt = []"

fun registers :: "DownloadOpt option \<Rightarrow> finalFunc list" where
  "registers (Some (WithExpectedHash h expected)) = [ExpectedHashCheck h expected]"
| "registers opt = []"

subsection \<open>A server that tells the truth about what it sends\<close>

text \<open>
  A body serves a byte sequence when it delivers the sequence and ends, or delivers a
  prefix of it and breaks.
\<close>

definition serves :: "body \<Rightarrow> bytes \<Rightarrow> bool" where
  "serves b content =
     (if readErr b then prefix (concat (chunks b)) content
      else concat (chunks b) = content)"

text \<open>
  A response is truthful about a resource when its headers describe its body: with status
  200 it declares the length of the resource and serves the resource from the start; with
  status 206 and a content range that scans as \<open>start-end/total\<close>, \<open>start\<close> not
  negative, it serves the bytes of the resource from \<open>start\<close> up to \<open>end\<close>. Nothing is
  asked of other responses, nor that the range is the one requested.
\<close>

definition truthful :: "world \<Rightarrow> bytes \<Rightarrow> http_result \<Rightarrow> bool" where
  "truthful w res r =
     (case r of
        DoError \<Rightarrow> True
      | Response resp \<Rightarrow>
          if StatusCode resp = StatusOK
          then ContentLength resp = of_nat (length res) \<and> serves (Body resp) res
          else if StatusCode resp = StatusPartialContent
          then (case Sscanf w (ToLower w (HeaderGet resp contentRangeHeader)) ''bytes %d-%d/%d'' of
                  None \<Rightarrow> True
                | Some (respStart, respEnd, respTotal) \<Rightarrow>
                    if 0 \<le>s respStart
                    then serves (Body resp)
                           (take (nat (sint respEnd + 1 - sint respStart))
                              (drop (nat (sint respStart)) res))
                    else True)
          else True)"

text \<open>
  The invariant of the loop against a truthful server: the bytes committed are a prefix
  of the resource, the counter is their number, and the recorded content length is the
  length of the resource once anything is recorded.
\<close>

definition delivered :: "bytes \<Rightarrow> session \<Rightarrow> bool" where
  "delivered res d \<longleftrightarrow>
     prefix (sink d) res \<and> count d = of_nat (length (sink d))
   \<and> (if contentLength d = 0 then sink d = [] else contentLength d = of_nat (length res))"

text \<open>
  The invariant of the loop for a hasher \<open>h\<close> that is attached once, whatever the server
  does: it has absorbed exactly the committed bytes and kept its algorithm.
\<close>

definition mirrors :: "nat \<Rightarrow> (bytes \<Rightarrow> bytes) \<Rightarrow> session \<Rightarrow> bool" where
  "mirrors h alg d \<longleftrightarrow>
     absorbed (heap d h) = sink d \<and> digest (heap d h) = alg
   \<and> count_list (hashers d) h = 1"

subsection \<open>Fixtures for the examples\<close>

text \<open>
  A client that plays a script: the \<open>i\<close>-th call gets the \<open>i\<close>-th entry, whatever the
  request, and a transport error once the script is over.
\<close>

definition scripted :: "http_result list \<Rightarrow> client" where
  "scripted rs i req = (if i < length rs then rs ! i else DoError)"

text \<open>
  Stand-ins for the library calls, enough for the examples: lower-casing of ASCII letters,
  and a scanner for a content range written plainly, \<open>bytes\<close>, one space and three
  unsigned decimal numbers separated by \<open>-\<close> and \<open>/\<close>; what follows them is ignored, as
  \<^verbatim>\<open>Sscanf\<close> ignores it.
\<close>

definition asciiLower :: "char \<Rightarrow> char" where
  "asciiLower c =
     (case map_of (zip ''ABCDEFGHIJKLMNOPQRSTUVWXYZ'' ''abcdefghijklmnopqrstuvwxyz'') c of
        None \<Rightarrow> c | Some l \<Rightarrow> l)"

definition digitValue :: "char \<Rightarrow> nat option" where
  "digitValue c = map_of (zip ''0123456789'' [0, 1, 2, 3, 4, 5, 6, 7, 8, 9]) c"

fun scanDigits :: "nat \<Rightarrow> string \<Rightarrow> nat \<times> string" where
  "scanDigits acc [] = (acc, [])"
| "scanDigits acc (c # cs) =
     (case digitValue c of
        None \<Rightarrow> (acc, c # cs)
      | Some v \<Rightarrow> scanDigits (10 * acc + v) cs)"

definition scanNumber :: "string \<Rightarrow> (int64 \<times> string) option" where
  "scanNumber s =
     (case s of
        [] \<Rightarrow> None
      | c # cs \<Rightarrow>
          (case digitValue c of
             None \<Rightarrow> None
           | Some v \<Rightarrow>
               (case scanDigits 0 s of (n, rest) \<Rightarrow>
                  if n < 2 ^ 63 then Some (of_nat n, rest) else None)))"

definition expect :: "string \<Rightarrow> string \<Rightarrow> string option" where
  "expect lit s = (if take (length lit) s = lit then Some (drop (length lit) s) else None)"

definition scanContentRange :: "string \<Rightarrow> string \<Rightarrow> (int64 \<times> int64 \<times> int64) option" where
  "scanContentRange s format =
     (case expect ''bytes '' s of None \<Rightarrow> None | Some s1 \<Rightarrow>
      (case scanNumber s1 of None \<Rightarrow> None | Some (a, s2) \<Rightarrow>
      (case expect ''-'' s2 of None \<Rightarrow> None | Some s3 \<Rightarrow>
      (case scanNumber s3 of None \<Rightarrow> None | Some (b, s4) \<Rightarrow>
      (case expect ''/'' s4 of None \<Rightarrow> None | Some s5 \<Rightarrow>
      (case scanNumber s5 of None \<Rightarrow> None | Some (c, s6) \<Rightarrow> Some (a, b, c)))))))"

definition exampleWorld :: "http_result list \<Rightarrow> world" where
  "exampleWorld script =
     \<lparr>newRequestOK = (\<lambda>u. u \<noteq> []),
      ToLower = map asciiLower,
      Sscanf = scanContentRange,
      defaultClient = scripted script,
      ctxDone = (\<lambda>i. False)\<rparr>"

text \<open>A hasher whose digest is the sum of the bytes, and a heap that holds it everywhere.\<close>

definition sumHasher :: hasher where
  "sumHasher = \<lparr>digest = (\<lambda>bs. [sum_list bs]), absorbed = []\<rparr>"

definition exampleHeap :: "nat \<Rightarrow> hasher" where
  "exampleHeap = (\<lambda>a. sumHasher)"

text \<open>Responses of a server that holds the nine bytes 1, ..., 9.\<close>

definition exampleResource :: bytes where
  "exampleResource = [1, 2, 3, 4, 5, 6, 7, 8, 9]"

definition plainResponse :: "int \<Rightarrow> response" where
  "plainResponse status =
     \<lparr>StatusCode = status, ContentLength = 9, HeaderGet = (\<lambda>k. []),
      Body = \<lparr>chunks = [], readErr = False\<rparr>\<rparr>"

definition fullResponse :: "bytes list \<Rightarrow> bool \<Rightarrow> response" where
  "fullResponse cs broken =
     \<lparr>StatusCode = StatusOK, ContentLength = 9, HeaderGet = (\<lambda>k. []),
      Body = \<lparr>chunks = cs, readErr = broken\<rparr>\<rparr>"

definition partialResponse :: "string \<Rightarrow> bytes list \<Rightarrow> bool \<Rightarrow> response" where
  "partialResponse cr cs broken =
     \<lparr>StatusCode = StatusPartialContent, ContentLength = of_nat (length (concat cs)),
      HeaderGet = (\<lambda>k. if k = contentRangeHeader then cr else []),
      Body = \<lparr>chunks = cs, readErr = broken\<rparr>\<rparr>"

text \<open>
  Scripts of servers: one breaks the first transfer after four bytes and serves the rest
  on the range request; one breaks the same way and then answers the range request with
  200; one then answers with a content range that does not scan; one has no such
  resource; one breaks every transfer; one answers every request with 502.
\<close>

definition exampleURL :: string where
  "exampleURL = ''http://host/file''"

definition resumedScript :: "http_result list" where
  "resumedScript =
     [Response (fullResponse [[1, 2, 3], [4]] True),
      Response (partialResponse ''bytes 4-8/9'' [[5, 6], [7, 8, 9]] False)]"

definition refusedScript :: "http_result list" where
  "refusedScript =
     [Response (fullResponse [[1, 2, 3], [4]] True), Response (plainResponse StatusOK)]"

definition garbledScript :: "http_result list" where
  "garbledScript =
     [Response (fullResponse [[1, 2, 3], [4]] True),
      Response (partialResponse ''bytes */9'' [] False)]"

definition missingScript :: "http_result list" where
  "missingScript = [Response (plainResponse 404)]"

definition breakingScript :: "http_result list" where
  "breakingScript =
     [Response (fullResponse [[1, 2, 3], [4]] True),
      Response (partialResponse ''bytes 4-8/9'' [[5]] True)]"

definition gatewayScript :: "http_result list" where
  "gatewayScript = replicate 7 (Response (plainResponse StatusBadGateway))"

text \<open>
  The session after the first of these transfers has broken: four bytes committed, nine
  declared, one wait of 250 ms behind it.
\<close>

definition afterFirstBreak :: "http_result list \<Rightarrow> session" where
  "afterFirstBreak script =
     (newDownloader (exampleWorld script) exampleHeap exampleURL)
       \<lparr>count := 4, contentLength := 9, sink := [1, 2, 3, 4],
        retryParameters :=
          DefaultRetryParameters\<lparr>currentWait := 500000000, retryCtr := 1, prevPos := 4\<rparr>,
        requests := [\<lparr>reqURL = exampleURL, reqHeaderSet = []\<rparr>],
        waitCalls := [4], timers := [250000000], opened := [0]\<rparr>"

text \<open>The same session when its loop ends, no hasher attached.\<close>

definition plainEnd :: session where
  "plainEnd =
     (afterFirstBreak resumedScript)
       \<lparr>count := 9, sink := exampleResource,
        requests := [\<lparr>reqURL = exampleURL, reqHeaderSet = []\<rparr>,
                      \<lparr>reqURL = exampleURL, reqHeaderSet = [(''Range'', ''bytes=4-'')]\<rparr>],
        opened := [0, 1]\<rparr>"

text \<open>
  The session of the first script with the hasher at address 3 attached by
  WithExpectedHash: as configured, after the broken first transfer, and when the loop
  ends.
\<close>

definition hashedStart :: "bytes \<Rightarrow> session" where
  "hashedStart expected =
     (newDownloader (exampleWorld resumedScript) exampleHeap exampleURL)
       \<lparr>hashers := [3], finalFuncs := [ExpectedHashCheck 3 expected]\<rparr>"

definition hashedMiddle :: "bytes \<Rightarrow> session" where
  "hashedMiddle expected =
     (hashedStart expected)
       \<lparr>count := 4, contentLength := 9, sink := [1, 2, 3, 4],
        heap := exampleHeap(3 := sumHasher\<lparr>absorbed := [1, 2, 3, 4]\<rparr>),
        retryParameters :=
          DefaultRetryParameters\<lparr>currentWait := 500000000, retryCtr := 1, prevPos := 4\<rparr>,
        requests := [\<lparr>reqURL = exampleURL, reqHeaderSet = []\<rparr>],
        waitCalls := [4], timers := [250000000], opened := [0]\<rparr>"

definition hashedEnd :: "bytes \<Rightarrow> session" where
  "hashedEnd expected =
     (hashedMiddle expected)
       \<lparr>count := 9, sink := exampleResource,
        heap := exampleHeap(3 := sumHasher\<lparr>absorbed := exampleResource\<rparr>),
        requests := [\<lparr>reqURL = exampleURL, reqHeaderSet = []\<rparr>,
                      \<lparr>reqURL = exampleURL, reqHeaderSet = [(''Range'', ''bytes=4-'')]\<rparr>],
        opened := [0, 1]\<rparr>"


section \<open>Properties of the retry policy\<close>

lemma sint_succ_below:
  fixes a b :: "64 word"
  assumes "a <s b"
  shows "sint (a + 1) = sint a + 1"
proof -
  have "sint a < sint b"
    using assms by (simp add: word_sless_alt)
  moreover have "sint b < 2 ^ 63"
    using sint_lt [of b] by simp
  moreover have "- (2 ^ 63) \<le> sint a"
    using sint_ge [of a] by simp
  ultimately have "signed_take_bit 63 (sint a + 1) = sint a + 1"
    by (intro signed_take_bit_int_eq_self) auto
  then show ?thesis
    by (simp add: sint_word_ariths)
qed

lemma not_sle_iff_sless: "\<not> (a \<le>s b) \<longleftrightarrow> b <s a"
  by (simp add: word_sle_eq word_sless_alt not_le)

lemma Wait_exceeded_iff:
  "waitErr (Wait cancelled pos p) = Some ErrRetryParametersExceeded \<longleftrightarrow> MaxRetries p \<le>s retryCtr p"
  by (simp add: Wait_def Let_def)

lemma Wait_MaxRetries [simp]: "MaxRetries (params (Wait cancelled pos p)) = MaxRetries p"
  by (simp add: Wait_def Let_def)

lemma Wait_keeps_bound:
  assumes "retryCtr p \<le>s MaxRetries p"
  shows "retryCtr (params (Wait cancelled pos p)) \<le>s MaxRetries p"
proof (cases "MaxRetries p \<le>s retryCtr p")
  case True
  then show ?thesis
    using assms by (simp add: Wait_def)
next
  case False
  then have below: "retryCtr p <s MaxRetries p"
    by (simp add: not_sle_iff_sless)
  then have "sint (retryCtr p + 1) \<le> sint (MaxRetries p)"
    using sint_succ_below [OF below] by (simp add: word_sless_alt)
  then show ?thesis
    using False by (simp add: Wait_def Let_def word_sle_eq)
qed

lemma Waits_MaxRetries [simp]: "MaxRetries (Waits cs p) = MaxRetries p"
  by (induction cs p rule: Waits.induct) simp_all

lemma Waits_keep_bound:
  "retryCtr p \<le>s MaxRetries p \<Longrightarrow> retryCtr (Waits cs p) \<le>s MaxRetries p"
proof (induction cs p rule: Waits.induct)
  case (1 p)
  then show ?case by simp
next
  case (2 cancelled pos cs p)
  from "2.prems" have "retryCtr (params (Wait cancelled pos p)) \<le>s MaxRetries p"
    by (rule Wait_keeps_bound)
  then show ?case
    using "2.IH" by simp
qed

text \<open>
  On parameters that no call has touched yet the backoff is zero, so the first wait ever
  always starts from the base duration.
\<close>

lemma first_Wait_resets:
  "currentWait p = 0 \<Longrightarrow> \<not> MaxRetries p \<le>s retryCtr p \<Longrightarrow>
     timer (Wait cancelled pos p) = Some (BaseWait p)"
  by (simp add: Wait_def Let_def resetsWait_def)

text \<open>
  Where the snapshot is not zero and adding 1 MiB to it does not wrap, the comparison of
  the code is the comparison of the numbers.
\<close>

lemma progress_test_numeric:
  assumes "unat (prevPos p) + 2 ^ 20 < 2 ^ 64"
  shows "prevPos p + oneMB < pos \<longleftrightarrow> unat (prevPos p) + 2 ^ 20 < unat pos"
proof -
  have one: "unat oneMB = 2 ^ 20"
    by (simp add: oneMB_def)
  have "unat (prevPos p + oneMB) = unat (prevPos p) + 2 ^ 20"
    using assms by (simp add: unat_word_ariths one)
  then show ?thesis
    by (simp add: word_less_nat_alt)
qed

text \<open>
  Claim C6, as the specification words it, at a state the code reaches: after one wait at
  position 0 with the default parameters, a second wait at position 2 MiB is not the first
  wait, the position has advanced by more than 1 MiB over the recorded 0, and still the
  timer runs for the doubled 500 ms, not for the base 250 ms.
\<close>

theorem Wait_reset_counterexample:
  "retryCtr (params (Wait False 0 DefaultRetryParameters))
     <s MaxRetries (params (Wait False 0 DefaultRetryParameters))
   \<and> spec_reset_due (params (Wait False 0 DefaultRetryParameters)) (2 * oneMB)
   \<and> BaseWait (params (Wait False 0 DefaultRetryParameters)) = 250000000
   \<and> timer (Wait False (2 * oneMB) (params (Wait False 0 DefaultRetryParameters)))
       = Some 500000000"
  by (simp add: Wait_def DefaultRetryParameters_def resetsWait_def spec_reset_due_def
      oneMB_def word_sle_eq word_sless_alt)

text \<open>
  Claim C6, amended: a call of Wait below the maximum runs its timer for the base duration
  exactly when the current backoff is zero, or the recorded previous position is not zero
  and the position is above it plus 1 MiB (in 64-bit unsigned arithmetic); otherwise the
  timer runs for the backoff as the previous call left it.
\<close>

theorem Wait_reset_rule:
  assumes "retryCtr p <s MaxRetries p"
  shows "timer (Wait cancelled pos p) =
           Some (if currentWait p = 0 \<or> (prevPos p \<noteq> 0 \<and> prevPos p + oneMB < pos)
                 then BaseWait p else currentWait p)"
  using assms by (simp add: Wait_def Let_def resetsWait_def not_sle_iff_sless [symmetric])

theorem Wait_reset_rule_witness:
  "retryCtr (DefaultRetryParameters\<lparr>currentWait := 500000000, retryCtr := 1, prevPos := 5\<rparr>)
     <s MaxRetries (DefaultRetryParameters\<lparr>currentWait := 500000000, retryCtr := 1, prevPos := 5\<rparr>)
   \<and> timer (Wait False (2 * oneMB)
        (DefaultRetryParameters\<lparr>currentWait := 500000000, retryCtr := 1, prevPos := 5\<rparr>))
       = Some 250000000
   \<and> timer (Wait False oneMB
        (DefaultRetryParameters\<lparr>currentWait := 500000000, retryCtr := 1, prevPos := 5\<rparr>))
       = Some 500000000"
  using Wait_reset_rule [of "DefaultRetryParameters\<lparr>currentWait := 500000000, retryCtr := 1, prevPos := 5\<rparr>"
      False "2 * oneMB"]
    Wait_reset_rule [of "DefaultRetryParameters\<lparr>currentWait := 500000000, retryCtr := 1, prevPos := 5\<rparr>"
      False oneMB]
  by (simp add: DefaultRetryParameters_def oneMB_def word_sless_alt)

text \<open>
  Claim C7: a call of Wait with the counter at (or above) the maximum returns
  ErrRetryParametersExceeded, starts no timer and leaves every field as it was; and from
  parameters whose counter is within the maximum, no sequence of calls takes the counter
  above the maximum.
\<close>

theorem Wait_exhausted:
  "(MaxRetries p \<le>s retryCtr p \<longrightarrow>
      Wait cancelled pos p = \<lparr>waitErr = Some ErrRetryParametersExceeded, timer = None, params = p\<rparr>)
   \<and> (retryCtr p \<le>s MaxRetries p \<longrightarrow>
      retryCtr (Waits cs p) \<le>s MaxRetries p \<and> MaxRetries (Waits cs p) = MaxRetries p)"
  using Waits_keep_bound [of p cs] by (simp add: Wait_def)

theorem Wait_exhausted_witness:
  "MaxRetries (DefaultRetryParameters\<lparr>retryCtr := 5\<rparr>) \<le>s retryCtr (DefaultRetryParameters\<lparr>retryCtr := 5\<rparr>)
   \<and> Wait False 7 (DefaultRetryParameters\<lparr>retryCtr := 5\<rparr>)
       = \<lparr>waitErr = Some ErrRetryParametersExceeded, timer = None,
          params = DefaultRetryParameters\<lparr>retryCtr := 5\<rparr>\<rparr>
   \<and> retryCtr (DefaultRetryParameters\<lparr>retryCtr := 5\<rparr>) \<le>s MaxRetries (DefaultRetryParameters\<lparr>retryCtr := 5\<rparr>)
   \<and> retryCtr (Waits [(False, 9), (True, 11)] (DefaultRetryParameters\<lparr>retryCtr := 5\<rparr>)) \<le>s 5"
  using Wait_exhausted [of "DefaultRetryParameters\<lparr>retryCtr := 5\<rparr>" False 7 "[(False, 9), (True, 11)]"]
  by (simp add: DefaultRetryParameters_def word_sle_eq)

text \<open>
  Claim C8: a call of Wait that does not return ErrRetryParametersExceeded, whichever case
  of the select it takes, adds one to the counter (without wrapping), multiplies the
  backoff it waited for by WaitMultiplier and stores the position in prevPos, whether or
  not the backoff was reset in this call.
\<close>

theorem Wait_bookkeeping:
  assumes "waitErr (Wait cancelled pos p) \<noteq> Some ErrRetryParametersExceeded"
  shows "retryCtr (params (Wait cancelled pos p)) = retryCtr p + 1
       \<and> sint (retryCtr (params (Wait cancelled pos p))) = sint (retryCtr p) + 1
       \<and> currentWait (params (Wait cancelled pos p))
           = (if resetsWait p pos then BaseWait p else currentWait p) * WaitMultiplier p
       \<and> prevPos (params (Wait cancelled pos p)) = pos
       \<and> waitErr (Wait cancelled pos p) = (if cancelled then Some ErrContext else None)"
proof -
  from assms have open_budget: "\<not> MaxRetries p \<le>s retryCtr p"
    by (simp add: Wait_exceeded_iff)
  then have "retryCtr p <s MaxRetries p"
    by (simp add: not_sle_iff_sless)
  then have "sint (retryCtr p + 1) = sint (retryCtr p) + 1"
    by (rule sint_succ_below)
  then show ?thesis
    using open_budget by (simp add: Wait_def Let_def)
qed

theorem Wait_bookkeeping_witness:
  "waitErr (Wait True 3000000 (DefaultRetryParameters\<lparr>currentWait := 500000000, retryCtr := 1, prevPos := 7\<rparr>))
     \<noteq> Some ErrRetryParametersExceeded
   \<and> params (Wait True 3000000 (DefaultRetryParameters\<lparr>currentWait := 500000000, retryCtr := 1, prevPos := 7\<rparr>))
       = \<lparr>MaxRetries = 5, BaseWait = 250000000, WaitMultiplier = 2,
          currentWait = 500000000, retryCtr = 2, prevPos = 3000000\<rparr>
   \<and> waitErr (Wait True 3000000 (DefaultRetryParameters\<lparr>currentWait := 500000000, retryCtr := 1, prevPos := 7\<rparr>))
       = Some ErrContext"
  using Wait_bookkeeping [of True 3000000
      "DefaultRetryParameters\<lparr>currentWait := 500000000, retryCtr := 1, prevPos := 7\<rparr>"]
  by (simp add: Wait_def DefaultRetryParameters_def resetsWait_def oneMB_def word_sle_eq)

section \<open>Properties of the driver\<close>


lemma run_loop_Return: "iteration w i d = (Return e, d') \<Longrightarrow> run_loop w i d = (Some e, d')"
  by (subst run_loop.simps) simp

lemma run_loop_Break: "iteration w i d = (Break, d') \<Longrightarrow> run_loop w i d = (None, d')"
  by (subst run_loop.simps) simp

lemma run_loop_Continue:
  "iteration w i d = (Continue, d') \<Longrightarrow> run_loop w i d = run_loop w (Suc i) d'"
  by (subst run_loop.simps) simp

lemma iteration_runInner_error:
  "runInner w i d = (Inl err, d1) \<Longrightarrow> iteration w i d = (Return err, d1)"
  by (simp add: iteration_def)

lemma runInner_frame:
  "retryParameters (snd (runInner w i d)) = retryParameters d"
  "waitCalls (snd (runInner w i d)) = waitCalls d"
  "timers (snd (runInner w i d)) = timers d"
  "sink (snd (runInner w i d)) = sink d"
  "heap (snd (runInner w i d)) = heap d"
  "count (snd (runInner w i d)) = count d"
  "hashers (snd (runInner w i d)) = hashers d"
  "finalFuncs (snd (runInner w i d)) = finalFuncs d"
  "finalCalls (snd (runInner w i d)) = finalCalls d"
  "opened (snd (runInner w i d)) = opened d"
  "httpClient (snd (runInner w i d)) = httpClient d"
  "url (snd (runInner w i d)) = url d"
  "headers (snd (runInner w i d)) = headers d"
  by (simp_all add: runInner_def validateRange_def Let_def
      split: http_result.splits option.splits prod.splits)

lemma runInner_status_not_partial:
  assumes "newRequestOK w (url d)" and "contentLength d \<noteq> 0"
    and "httpClient d i (newRequest d) = Response resp"
    and "StatusCode resp \<noteq> StatusPartialContent"
  shows "runInner w i d =
           (Inl (if StatusCode resp = StatusBadGateway then ErrPlain BadGateway
                 else ErrNonRetryable (StatusSubsequentRead (StatusCode resp))),
            d\<lparr>requests := requests d @ [newRequest d]\<rparr>)"
  using assms by (simp add: runInner_def Let_def)

lemma ioCopy_frame:
  "retryParameters (ioCopy cs d) = retryParameters d"
  "waitCalls (ioCopy cs d) = waitCalls d"
  "timers (ioCopy cs d) = timers d"
  "hashers (ioCopy cs d) = hashers d"
  "finalFuncs (ioCopy cs d) = finalFuncs d"
  "finalCalls (ioCopy cs d) = finalCalls d"
  "opened (ioCopy cs d) = opened d"
  "closed (ioCopy cs d) = closed d"
  "requests (ioCopy cs d) = requests d"
  "contentLength (ioCopy cs d) = contentLength d"
  "httpClient (ioCopy cs d) = httpClient d"
  "url (ioCopy cs d) = url d"
  "headers (ioCopy cs d) = headers d"
  by (induction cs arbitrary: d; simp add: Write_def)+

lemma ioCopy_sink: "sink (ioCopy cs d) = sink d @ concat cs"
  by (induction cs arbitrary: d) (simp_all add: Write_def)

lemma ioCopy_count: "count (ioCopy cs d) = count d + of_nat (length (concat cs))"
  by (induction cs arbitrary: d) (simp_all add: Write_def)


lemma stateAt_run_loop:
  "stateAt w d n = Some d' \<Longrightarrow> run_loop w 0 d = run_loop w n d'"
proof (induction n arbitrary: d')
  case 0
  then show ?case by simp
next
  case (Suc n)
  from Suc.prems obtain e where e: "stateAt w d n = Some e" and it: "iteration w n e = (Continue, d')"
    by (auto split: option.splits prod.splits step.splits)
  from Suc.IH [OF e] run_loop_Continue [OF it] show ?case by simp
qed

lemma iteration_resumable:
  assumes "resumable d" and "framed (httpClient d n (newRequest d))"
    and "iteration w n d = (Continue, d')"
  shows "resumable d'"
proof (cases "contentLength d = 0")
  case True
  with assms show ?thesis
    by (auto simp: iteration_def runInner_def validateRange_def Let_def resumable_def framed_def
        ioCopy_frame ioCopy_count
        split: http_result.splits option.splits prod.splits if_splits sum.splits)
next
  case False
  with assms show ?thesis
    by (auto simp: iteration_def runInner_def validateRange_def Let_def resumable_def
        ioCopy_frame ioCopy_count
        split: http_result.splits option.splits prod.splits if_splits sum.splits)
qed

lemma iteration_httpClient:
  "httpClient (snd (iteration w n d)) = httpClient d"
  by (auto simp: iteration_def Let_def ioCopy_frame runInner_frame
      split: prod.splits sum.splits option.splits)
   (metis runInner_frame(11) snd_conv)+


lemma stateAt_httpClient:
  "stateAt w d0 n = Some d \<Longrightarrow> httpClient d = httpClient d0"
proof (induction n arbitrary: d)
  case 0
  then show ?case by simp
next
  case (Suc n)
  from Suc.prems obtain e where e: "stateAt w d0 n = Some e" and it: "iteration w n e = (Continue, d)"
    by (auto split: option.splits prod.splits step.splits)
  have "httpClient d = httpClient e"
    using iteration_httpClient [of w n e] it by simp
  with Suc.IH [OF e] show ?case by simp
qed

lemma stateAt_resumable:
  assumes "resumable d0" and "\<forall>m req. framed (httpClient d0 m req)"
  shows "stateAt w d0 n = Some d \<Longrightarrow> resumable d"
proof (induction n arbitrary: d)
  case 0
  with assms show ?case by simp
next
  case (Suc n)
  from Suc.prems obtain e where e: "stateAt w d0 n = Some e" and it: "iteration w n e = (Continue, d)"
    by (auto split: option.splits prod.splits step.splits)
  have "framed (httpClient e n (newRequest e))"
    using assms(2) stateAt_httpClient [OF e] by simp
  with Suc.IH [OF e] it show ?case
    by (blast intro: iteration_resumable)
qed

lemma runInner_requests:
  "newRequestOK w (url d) \<Longrightarrow> requests (snd (runInner w i d)) = requests d @ [newRequest d]"
  by (simp add: runInner_def validateRange_def Let_def
      split: http_result.splits option.splits prod.splits)

lemma runInner_first_read:
  assumes "newRequestOK w (url d)" and "contentLength d = 0"
    and "httpClient d i (newRequest d) = Response resp"
  shows "runInner w i d =
           (if StatusCode resp = StatusBadGateway
            then (Inl (ErrPlain BadGateway), d\<lparr>requests := requests d @ [newRequest d]\<rparr>)
            else (if StatusCode resp = StatusOK then Inr (Body resp)
                  else Inl (ErrNonRetryable (StatusFirstRead (StatusCode resp))),
                  d\<lparr>requests := requests d @ [newRequest d],
                    contentLength := ContentLength resp\<rparr>))"
  using assms by (simp add: runInner_def Let_def)



lemma sint_of_nat_small:
  assumes "n < 2 ^ 63"
  shows "sint (of_nat n :: 64 word) = int n"
proof -
  have "signed_take_bit 63 (int n) = int n"
    using assms by (intro signed_take_bit_int_eq_self) (auto simp: of_nat_less_numeral_power_cancel_iff)
  then show ?thesis
    by (simp add: signed_of_nat)
qed

lemma of_nat_word_eq_0:
  assumes "n < 2 ^ 63" and "(of_nat n :: 64 word) = 0"
  shows "n = 0"
proof -
  have "sint (of_nat n :: 64 word) = int n"
    using assms(1) by (rule sint_of_nat_small)
  with assms(2) show ?thesis by simp
qed

lemma sint_of_nat_pred:
  assumes "n < 2 ^ 63" and "n \<noteq> 0"
  shows "sint (of_nat n - 1 :: 64 word) = int n - 1"
proof -
  obtain m where n: "n = Suc m"
    using assms(2) by (cases n) simp_all
  have "m < 2 ^ 63"
    using assms(1) n by simp
  then have "sint (of_nat m :: 64 word) = int m"
    by (rule sint_of_nat_small)
  then show ?thesis
    by (simp add: n)
qed

lemma absorb_other: "a \<noteq> h \<Longrightarrow> absorb p a hp h = hp h"
  by (simp add: absorb_def)

lemma fold_absorb_absent:
  "h \<notin> set hs \<Longrightarrow> fold (absorb p) hs hp h = hp h"
  by (induction hs arbitrary: hp) (simp_all add: absorb_def)

lemma fold_absorb_once:
  "count_list hs h = 1 \<Longrightarrow>
     absorbed (fold (absorb p) hs hp h) = absorbed (hp h) @ p
   \<and> digest (fold (absorb p) hs hp h) = digest (hp h)"
proof (induction hs arbitrary: hp)
  case Nil
  then show ?case by simp
next
  case (Cons a hs)
  show ?case
  proof (cases "a = h")
    case True
    with Cons.prems have "h \<notin> set hs"
      by (simp add: count_list_0_iff)
    then show ?thesis
      using True by (simp add: fold_absorb_absent) (simp add: absorb_def)
  next
    case False
    with Cons.prems have "count_list hs h = 1" by simp
    from Cons.IH [OF this, of "absorb p a hp"] False show ?thesis
      by (simp add: absorb_other)
  qed
qed

lemma ioCopy_heap_once:
  "count_list (hashers d) h = 1 \<Longrightarrow>
     absorbed (heap (ioCopy cs d) h) = absorbed (heap d h) @ concat cs
   \<and> digest (heap (ioCopy cs d) h) = digest (heap d h)"
proof (induction cs arbitrary: d)
  case Nil
  then show ?case by simp
next
  case (Cons c cs)
  show ?case
  proof (cases "c = []")
    case True
    with Cons show ?thesis by simp
  next
    case False
    have h: "count_list (hashers (Write c d)) h = 1"
      using Cons.prems by (simp add: Write_def)
    have "absorbed (heap (Write c d) h) = absorbed (heap d h) @ c"
      and "digest (heap (Write c d) h) = digest (heap d h)"
      using fold_absorb_once [OF Cons.prems, of c "heap d"] by (simp_all add: Write_def)
    with Cons.IH [OF h] False show ?thesis by simp
  qed
qed


lemma runInner_Inr:
  assumes "runInner w i d = (Inr b, d1)"
  obtains resp where "httpClient d i (newRequest d) = Response resp" and "b = Body resp"
    and "contentLength d = 0 \<and> StatusCode resp = StatusOK
           \<and> d1 = d\<lparr>requests := requests d @ [newRequest d], contentLength := ContentLength resp\<rparr>
         \<or> contentLength d \<noteq> 0 \<and> StatusCode resp = StatusPartialContent
           \<and> Sscanf w (ToLower w (HeaderGet resp contentRangeHeader)) ''bytes %d-%d/%d''
               = Some (count d, contentLength d - 1, contentLength d)
           \<and> d1 = d\<lparr>requests := requests d @ [newRequest d]\<rparr>"
  using assms
  by (auto simp: runInner_def validateRange_def Let_def
      split: if_splits http_result.splits option.splits prod.splits)

lemma serves_prefix: "serves b content \<Longrightarrow> prefix (concat (chunks b)) content"
  by (auto simp: serves_def split: if_splits)

lemma serves_complete: "serves b content \<Longrightarrow> \<not> readErr b \<Longrightarrow> concat (chunks b) = content"
  by (simp add: serves_def)

lemma runInner_payload:
  assumes inv: "delivered res d" and len: "length res < 2 ^ 63"
    and tr: "truthful w res (httpClient d i (newRequest d))"
    and ri: "runInner w i d = (Inr b, d1)"
  shows "serves b (drop (length (sink d)) res)"
    and "contentLength d1 = of_nat (length res)"
proof -
  from ri obtain resp where resp: "httpClient d i (newRequest d) = Response resp"
    and b: "b = Body resp"
    and cases: "contentLength d = 0 \<and> StatusCode resp = StatusOK
           \<and> d1 = d\<lparr>requests := requests d @ [newRequest d], contentLength := ContentLength resp\<rparr>
         \<or> contentLength d \<noteq> 0 \<and> StatusCode resp = StatusPartialContent
           \<and> Sscanf w (ToLower w (HeaderGet resp contentRangeHeader)) ''bytes %d-%d/%d''
               = Some (count d, contentLength d - 1, contentLength d)
           \<and> d1 = d\<lparr>requests := requests d @ [newRequest d]\<rparr>"
    by (rule runInner_Inr)
  from cases show "serves b (drop (length (sink d)) res)"
  proof
    assume first: "contentLength d = 0 \<and> StatusCode resp = StatusOK
           \<and> d1 = d\<lparr>requests := requests d @ [newRequest d], contentLength := ContentLength resp\<rparr>"
    with inv have "sink d = []"
      by (simp add: delivered_def)
    moreover from tr resp first have "serves (Body resp) res"
      by (simp add: truthful_def)
    ultimately show ?thesis
      using b by simp
  next
    assume resume: "contentLength d \<noteq> 0 \<and> StatusCode resp = StatusPartialContent
           \<and> Sscanf w (ToLower w (HeaderGet resp contentRangeHeader)) ''bytes %d-%d/%d''
               = Some (count d, contentLength d - 1, contentLength d)
           \<and> d1 = d\<lparr>requests := requests d @ [newRequest d]\<rparr>"
    let ?k = "length (sink d)"
    from inv have pre: "prefix (sink d) res" and cnt: "count d = of_nat ?k"
      and cl: "contentLength d = of_nat (length res)"
      using resume by (simp_all add: delivered_def)
    have k: "?k \<le> length res"
      using pre by (rule prefix_length_le)
    then have "?k < 2 ^ 63"
      using len by simp
    then have start: "sint (count d) = int ?k"
      using cnt by (simp add: sint_of_nat_small)
    have "length res \<noteq> 0"
      using resume cl by auto
    then have "sint (contentLength d - 1) = int (length res) - 1"
      using cl len by (simp add: sint_of_nat_pred)
    then have "nat (sint (contentLength d - 1) + 1 - sint (count d)) = length res - ?k"
      using start by simp
    moreover have "0 \<le>s count d"
      using start by (simp add: word_sle_eq)
    moreover have "nat (sint (count d)) = ?k"
      using start by simp
    ultimately have "serves (Body resp) (take (length res - ?k) (drop ?k res))"
      using tr resp resume by (simp add: truthful_def)
    then show ?thesis
      using b by simp
  qed
  from cases show "contentLength d1 = of_nat (length res)"
  proof
    assume first: "contentLength d = 0 \<and> StatusCode resp = StatusOK
           \<and> d1 = d\<lparr>requests := requests d @ [newRequest d], contentLength := ContentLength resp\<rparr>"
    with tr resp show ?thesis
      by (simp add: truthful_def)
  next
    assume resume: "contentLength d \<noteq> 0 \<and> StatusCode resp = StatusPartialContent
           \<and> Sscanf w (ToLower w (HeaderGet resp contentRangeHeader)) ''bytes %d-%d/%d''
               = Some (count d, contentLength d - 1, contentLength d)
           \<and> d1 = d\<lparr>requests := requests d @ [newRequest d]\<rparr>"
    with inv show ?thesis
      by (simp add: delivered_def)
  qed
qed


lemma delivered_cong:
  assumes "sink e = sink d" and "count e = count d" and "contentLength e = contentLength d"
  shows "delivered res e = delivered res d"
  using assms by (simp add: delivered_def)

lemma mirrors_cong:
  assumes "sink e = sink d" and "heap e = heap d" and "hashers e = hashers d"
  shows "mirrors h alg e = mirrors h alg d"
  using assms by (simp add: mirrors_def)

lemma copy_delivered:
  assumes inv: "delivered res d" and len: "length res < 2 ^ 63"
    and sv: "serves b (drop (length (sink d)) res)"
    and d1: "sink d1 = sink d" "count d1 = count d" "contentLength d1 = of_nat (length res)"
  shows "delivered res (ioCopy (chunks b) d1)"
    and "\<not> readErr b \<Longrightarrow> sink (ioCopy (chunks b) d1) = res"
proof -
  let ?k = "length (sink d)"
  let ?p = "concat (chunks b)"
  from inv have pre: "prefix (sink d) res" and cnt: "count d = of_nat ?k"
    by (simp_all add: delivered_def)
  have sk: "sink d = take ?k res"
    using pre by (metis append_eq_conv_conj prefixE)
  have "prefix ?p (drop ?k res)"
    using sv by (rule serves_prefix)
  then obtain rest where rest: "drop ?k res = ?p @ rest"
    by (auto elim: prefixE)
  have "res = take ?k res @ drop ?k res" by simp
  then have res: "res = sink d @ ?p @ rest"
    using sk rest by simp
  have p1: "prefix (sink d @ ?p) res"
    by (subst res) simp
  have p2: "count (ioCopy (chunks b) d1) = of_nat (length (sink d @ ?p))"
    using cnt d1 by (simp add: ioCopy_count)
  have p3: "sink d @ ?p = []" if "(of_nat (length res) :: 64 word) = 0"
  proof -
    have "length res = 0"
      using len that by (rule of_nat_word_eq_0)
    then show ?thesis
      using p1 by simp
  qed
  show "delivered res (ioCopy (chunks b) d1)"
    using p1 p2 p3 d1
    by (simp add: delivered_def ioCopy_sink ioCopy_frame)
  show "sink (ioCopy (chunks b) d1) = res" if "\<not> readErr b"
  proof -
    have "?p = drop ?k res"
      using sv that by (rule serves_complete)
    then show ?thesis
      using sk d1 by (simp add: ioCopy_sink) (metis append_take_drop_id)
  qed
qed

lemma copy_mirrors:
  assumes "mirrors h alg d"
  shows "mirrors h alg (ioCopy cs d)"
proof -
  from assms have ab: "absorbed (heap d h) = sink d" and dg: "digest (heap d h) = alg"
    and once: "count_list (hashers d) h = 1"
    by (simp_all add: mirrors_def)
  show ?thesis
    using ioCopy_heap_once [OF once, of cs] ab dg once
    by (simp add: mirrors_def ioCopy_sink ioCopy_frame)
qed

lemma iteration_delivered:
  assumes inv: "delivered res d" and len: "length res < 2 ^ 63"
    and tr: "truthful w res (httpClient d i (newRequest d))"
    and it: "iteration w i d = (st, d')"
  shows "st = Continue \<Longrightarrow> delivered res d'"
    and "st = Break \<Longrightarrow> delivered res d' \<and> sink d' = res"
proof -
  have goal: "delivered res d' \<and> (st = Break \<longrightarrow> sink d' = res)"
    if nr: "st = Continue \<or> st = Break"
  proof -
    from it nr obtain b d1 where ri: "runInner w i d = (Inr b, d1)"
      by (cases "runInner w i d"; cases "fst (runInner w i d)") (auto simp: iteration_def)
    let ?d1 = "d1\<lparr>opened := opened d1 @ [i]\<rparr>"
    let ?d2 = "ioCopy (chunks b) ?d1"
    have sv: "serves b (drop (length (sink d)) res)"
      and cl: "contentLength d1 = of_nat (length res)"
      using runInner_payload [OF inv len tr ri] by simp_all
    have fr: "sink ?d1 = sink d" "count ?d1 = count d"
      "contentLength ?d1 = of_nat (length res)"
      using runInner_frame [of w i d] ri cl by simp_all
    have c2: "delivered res ?d2" and full: "\<not> readErr b \<Longrightarrow> sink ?d2 = res"
      using copy_delivered [OF inv len sv fr] by simp_all
    have same: "sink d' = sink ?d2 \<and> count d' = count ?d2 \<and> contentLength d' = contentLength ?d2"
      using it ri by (auto simp: iteration_def Let_def split: if_splits option.splits)
    then have "delivered res d' = delivered res ?d2"
      by (intro delivered_cong) simp_all
    moreover have "sink d' = res" if "st = Break"
    proof -
      from it ri that have "\<not> readErr b"
        by (auto simp: iteration_def Let_def split: if_splits option.splits)
      then show ?thesis
        using full same by simp
    qed
    ultimately show ?thesis
      using c2 by simp
  qed
  show "st = Continue \<Longrightarrow> delivered res d'"
    using goal by simp
  show "st = Break \<Longrightarrow> delivered res d' \<and> sink d' = res"
    using goal by simp
qed

lemma iteration_mirrors:
  assumes inv: "mirrors h alg d"
  shows "mirrors h alg (snd (iteration w i d))"
proof -
  obtain r d1 where ri: "runInner w i d = (r, d1)"
    by (cases "runInner w i d")
  have fr: "sink d1 = sink d" "heap d1 = heap d" "hashers d1 = hashers d"
    using runInner_frame [of w i d] ri by simp_all
  then have m1: "mirrors h alg d1"
    using inv mirrors_cong [of d1 d h alg] by simp
  show ?thesis
  proof (cases r)
    case (Inl err)
    with ri m1 show ?thesis
      by (simp add: iteration_def)
  next
    case (Inr b)
    let ?d1 = "d1\<lparr>opened := opened d1 @ [i]\<rparr>"
    let ?d2 = "ioCopy (chunks b) ?d1"
    have "mirrors h alg ?d1"
      using m1 mirrors_cong [of ?d1 d1 h alg] by simp
    then have m2: "mirrors h alg ?d2"
      by (rule copy_mirrors)
    have same: "sink (snd (iteration w i d)) = sink ?d2"
      "heap (snd (iteration w i d)) = heap ?d2"
      "hashers (snd (iteration w i d)) = hashers ?d2"
      using ri Inr by (simp_all add: iteration_def Let_def split: option.splits)
    show ?thesis
      using m2 mirrors_cong [OF same, of h alg] by simp
  qed
qed

lemma run_loop_delivered:
  assumes "delivered res d" and "length res < 2 ^ 63"
    and "\<forall>n req. truthful w res (httpClient d n req)"
    and "run_loop w i d = (None, d')"
  shows "sink d' = res"
  using assms
proof (induction w i d rule: run_loop.induct)
  case (1 w i d)
  obtain st e where it: "iteration w i d = (st, e)"
    by (cases "iteration w i d")
  have tr: "truthful w res (httpClient d i (newRequest d))"
    using "1.prems"(3) by simp
  show ?case
  proof (cases st)
    case (Return err)
    with it "1.prems"(4) show ?thesis
      by (simp add: run_loop_Return)
  next
    case Break
    with it "1.prems"(4) have "d' = e"
      by (simp add: run_loop_Break)
    with iteration_delivered(2) [OF "1.prems"(1,2) tr it Break] show ?thesis
      by simp
  next
    case Continue
    have inv: "delivered res e"
      using iteration_delivered(1) [OF "1.prems"(1,2) tr it Continue] .
    have "httpClient e = httpClient d"
      using iteration_httpClient [of w i d] it by simp
    then have tr': "\<forall>n req. truthful w res (httpClient e n req)"
      using "1.prems"(3) by simp
    have rl: "run_loop w (Suc i) e = (None, d')"
      using "1.prems"(4) it Continue by (simp add: run_loop_Continue)
    show ?thesis
      using "1.IH" [OF it [symmetric] Continue inv "1.prems"(2) tr' rl] .
  qed
qed

lemma run_loop_mirrors:
  "mirrors h alg d \<Longrightarrow> mirrors h alg (snd (run_loop w i d))"
proof (induction w i d rule: run_loop.induct)
  case (1 w i d)
  obtain st e where it: "iteration w i d = (st, e)"
    by (cases "iteration w i d")
  have inv: "mirrors h alg e"
    using iteration_mirrors [OF "1.prems", of w i] it by simp
  show ?case
  proof (cases st)
    case (Return err)
    with it inv show ?thesis by (simp add: run_loop_Return)
  next
    case Break
    with it inv show ?thesis by (simp add: run_loop_Break)
  next
    case Continue
    with "1.IH" [OF it [symmetric] Continue inv] it show ?thesis
      by (simp add: run_loop_Continue)
  qed
qed

lemma applyOpt_frame:
  "hashers (applyOpt f d) = hashers d @ attaches (Some f)"
  "finalFuncs (applyOpt f d) = finalFuncs d @ registers (Some f)"
  "sink (applyOpt f d) = sink d"
  "heap (applyOpt f d) = heap d"
  "count (applyOpt f d) = count d"
  "contentLength (applyOpt f d) = contentLength d"
  "finalCalls (applyOpt f d) = finalCalls d"
  by (cases f; simp)+

lemma applyOpts_frame:
  assumes "applyOpts opts d0 = Some d"
  shows "hashers d = hashers d0 @ concat (map attaches opts)"
    and "finalFuncs d = finalFuncs d0 @ concat (map registers opts)"
    and "sink d = sink d0" and "heap d = heap d0"
    and "contentLength d = contentLength d0"
    and "finalCalls d = finalCalls d0"
  using assms
proof (induction opts arbitrary: d0)
  case Nil
  {
    case 1 then show ?case by simp
  next
    case 2 then show ?case by simp
  next
    case 3 then show ?case by simp
  next
    case 4 then show ?case by simp
  next
    case 5 then show ?case by simp
  next
    case 6 then show ?case by simp
  }
next
  case (Cons opt opts)
  {
    case 1 then show ?case
      using Cons.IH(1) by (cases opt) (auto simp: callOpt_def applyOpt_frame)
  next
    case 2 then show ?case
      using Cons.IH(2) by (cases opt) (auto simp: callOpt_def applyOpt_frame)
  next
    case 3 then show ?case
      using Cons.IH(3) by (cases opt) (auto simp: callOpt_def applyOpt_frame)
  next
    case 4 then show ?case
      using Cons.IH(4) by (cases opt) (auto simp: callOpt_def applyOpt_frame)
  next
    case 5 then show ?case
      using Cons.IH(5) by (cases opt) (auto simp: callOpt_def applyOpt_frame)
  next
    case 6 then show ?case
      using Cons.IH(6) by (cases opt) (auto simp: callOpt_def applyOpt_frame)
  }
qed

lemma applyOpts_total: "\<exists>d. applyOpts opts d0 = Some d"
  by (induction opts arbitrary: d0) (auto simp: callOpt_def)

lemma applyOpts_nil: "applyOpts (xs @ None # ys) d = applyOpts (xs @ ys) d"
  by (induction xs arbitrary: d) (auto simp: callOpt_def split: option.splits)

lemma applyOpts_filter: "applyOpts opts d = applyOpts (filter (\<lambda>opt. opt \<noteq> None) opts) d"
  by (induction opts arbitrary: d) (auto simp: callOpt_def split: option.splits)

lemma iteration_frame:
  "httpClient (snd (iteration w i d)) = httpClient d"
  "hashers (snd (iteration w i d)) = hashers d"
  "finalFuncs (snd (iteration w i d)) = finalFuncs d"
  "finalCalls (snd (iteration w i d)) = finalCalls d"
proof -
  obtain r d1 where ri: "runInner w i d = (r, d1)"
    by (cases "runInner w i d")
  have fr: "httpClient d1 = httpClient d" "hashers d1 = hashers d"
    "finalFuncs d1 = finalFuncs d" "finalCalls d1 = finalCalls d"
    using runInner_frame [of w i d] ri by simp_all
  show "httpClient (snd (iteration w i d)) = httpClient d"
    using ri fr by (cases r) (simp_all add: iteration_def Let_def ioCopy_frame split: option.splits)
  show "hashers (snd (iteration w i d)) = hashers d"
    using ri fr by (cases r) (simp_all add: iteration_def Let_def ioCopy_frame split: option.splits)
  show "finalFuncs (snd (iteration w i d)) = finalFuncs d"
    using ri fr by (cases r) (simp_all add: iteration_def Let_def ioCopy_frame split: option.splits)
  show "finalCalls (snd (iteration w i d)) = finalCalls d"
    using ri fr by (cases r) (simp_all add: iteration_def Let_def ioCopy_frame split: option.splits)
qed

lemma run_loop_frame:
  "finalFuncs (snd (run_loop w i d)) = finalFuncs d \<and> finalCalls (snd (run_loop w i d)) = finalCalls d"
proof (induction w i d rule: run_loop.induct)
  case (1 w i d)
  obtain st e where it: "iteration w i d = (st, e)"
    by (cases "iteration w i d")
  have fr: "finalFuncs e = finalFuncs d" "finalCalls e = finalCalls d"
    using iteration_frame(3,4) [of w i d] it by simp_all
  show ?case
  proof (cases st)
    case (Return err)
    with it fr show ?thesis by (simp add: run_loop_Return)
  next
    case Break
    with it fr show ?thesis by (simp add: run_loop_Break)
  next
    case Continue
    with "1.IH" [OF it [symmetric] Continue] it fr show ?thesis
      by (simp add: run_loop_Continue)
  qed
qed

lemma runFinalFuncs_all_pass:
  "\<forall>f\<in>set fs. callFinal (heap d) f = None \<Longrightarrow>
     runFinalFuncs fs d = (None, d\<lparr>finalCalls := finalCalls d @ fs\<rparr>)"
  by (induction fs arbitrary: d) simp_all

lemma runFinalFuncs_first_error:
  "\<forall>g\<in>set ps. callFinal (heap d) g = None \<Longrightarrow> callFinal (heap d) f = Some err \<Longrightarrow>
     runFinalFuncs (ps @ f # rest) d = (Some err, d\<lparr>finalCalls := finalCalls d @ ps @ [f]\<rparr>)"
  by (induction ps arbitrary: d) simp_all

lemma runFinalFuncs_frame:
  "sink (snd (runFinalFuncs fs d)) = sink d \<and> heap (snd (runFinalFuncs fs d)) = heap d"
  by (induction fs arbitrary: d) (simp_all split: option.splits)

lemma runFinalFuncs_None_at:
  "fst (runFinalFuncs fs d) = None \<Longrightarrow> f \<in> set fs \<Longrightarrow> heap d = hp \<Longrightarrow> callFinal hp f = None"
proof (induction fs arbitrary: d)
  case Nil
  then show ?case by simp
next
  case (Cons g fs)
  from Cons.prems(1,3) have g: "callFinal hp g = None"
    by (auto split: option.splits)
  show ?case
  proof (cases "f = g")
    case True
    with g show ?thesis by simp
  next
    case False
    with Cons.prems(2) have mem: "f \<in> set fs" by simp
    have rest: "fst (runFinalFuncs fs (d\<lparr>finalCalls := finalCalls d @ [g]\<rparr>)) = None"
      using Cons.prems(1,3) g by simp
    have hp: "heap (d\<lparr>finalCalls := finalCalls d @ [g]\<rparr>) = hp"
      using Cons.prems(3) by simp
    show ?thesis
      using Cons.IH [OF rest mem hp] .
  qed
qed

lemma runFinalFuncs_None:
  "fst (runFinalFuncs fs d) = None \<Longrightarrow> f \<in> set fs \<Longrightarrow> callFinal (heap d) f = None"
  by (rule runFinalFuncs_None_at) simp_all


subsection \<open>Which failures reach Wait\<close>

text \<open>
  A transport error of \<^verbatim>\<open>Do\<close> and a 502 status leave the loop by \<^verbatim>\<open>return err\<close>, like
  every other error of \<^verbatim>\<open>runInner\<close>: the retry parameters are not consulted.
\<close>

lemma request_failure_returns:
  assumes "newRequestOK w (url d)"
  shows "httpClient d i (newRequest d) = DoError \<Longrightarrow>
           iteration w i d = (Return (ErrPlain DoRequest), d\<lparr>requests := requests d @ [newRequest d]\<rparr>)"
    and "httpClient d i (newRequest d) = Response resp \<Longrightarrow> StatusCode resp = StatusBadGateway \<Longrightarrow>
           iteration w i d = (Return (ErrPlain BadGateway), d\<lparr>requests := requests d @ [newRequest d]\<rparr>)"
  using assms by (simp_all add: iteration_def runInner_def Let_def)

text \<open>
  A transfer that breaks while it is copied is the one failure that calls \<^verbatim>\<open>Wait\<close>: with
  budget left, the counter goes up by one, a timer is started, and the loop goes round
  again unless the context is cancelled first.
\<close>

lemma interrupted_copy_waits:
  assumes ri: "runInner w i d = (Inr b, d1)" and broken: "readErr b"
    and budget: "retryCtr (retryParameters d) <s MaxRetries (retryParameters d)"
  shows "\<exists>d'. iteration w i d = (if ctxDone w i then Return ErrContext else Continue, d')
           \<and> retryCtr (retryParameters d') = retryCtr (retryParameters d) + 1
           \<and> waitCalls d' = waitCalls d @ [count d + of_nat (length (concat (chunks b)))]
           \<and> length (timers d') = Suc (length (timers d))"
proof -
  have fr: "retryParameters d1 = retryParameters d" "waitCalls d1 = waitCalls d"
    "timers d1 = timers d" "count d1 = count d"
    using runInner_frame [of w i d] ri by simp_all
  have "\<not> MaxRetries (retryParameters d) \<le>s retryCtr (retryParameters d)"
    using budget by (simp add: not_sle_iff_sless)
  then show ?thesis
    using ri broken fr
    by (simp add: iteration_def Let_def Wait_def ioCopy_frame ioCopy_count)
qed

subsection \<open>Evaluating the examples\<close>

lemmas example_defs =
  exampleWorld_def scripted_def fullResponse_def plainResponse_def partialResponse_def
  newDownloader_def exampleHeap_def sumHasher_def exampleURL_def exampleResource_def
  resumedScript_def afterFirstBreak_def
  scanContentRange_def expect_def scanNumber_def digitValue_def asciiLower_def

lemmas step_defs =
  iteration_def runInner_def validateRange_def newRequest_def Write_def Wait_def
  DefaultRetryParameters_def resetsWait_def oneMB_def word_sle_eq Let_def
  absorb_def rangeHeader_def contentRangeHeader_def

lemma refused_first:
  "iteration (exampleWorld refusedScript) 0 (newDownloader (exampleWorld refusedScript) exampleHeap exampleURL)
     = (Continue, afterFirstBreak refusedScript)"
  by (simp add: step_defs example_defs refusedScript_def)

lemma framed_scripted: "\<forall>r\<in>set rs. framed r \<Longrightarrow> framed (scripted rs n req)"
  by (simp add: scripted_def framed_def)

lemma truthful_scripted: "\<forall>r\<in>set rs. truthful w res r \<Longrightarrow> truthful w res (scripted rs n req)"
  by (simp add: scripted_def truthful_def)

lemma plain_first:
  "iteration (exampleWorld resumedScript) 0
     (newDownloader (exampleWorld resumedScript) exampleHeap exampleURL)
     = (Continue, afterFirstBreak resumedScript)"
  by (simp add: step_defs example_defs)

lemma plain_second:
  "iteration (exampleWorld resumedScript) (Suc 0) (afterFirstBreak resumedScript) = (Break, plainEnd)"
  by (simp add: step_defs example_defs plainEnd_def decimal.simps)

lemma plain_loop:
  "run_loop (exampleWorld resumedScript) 0
     (newDownloader (exampleWorld resumedScript) exampleHeap exampleURL) = (None, plainEnd)"
  using run_loop_Continue [OF plain_first] run_loop_Break [OF plain_second]
  by simp

lemmas hashed_defs = hashedStart_def hashedMiddle_def hashedEnd_def

lemma hashed_first:
  "iteration (exampleWorld resumedScript) 0 (hashedStart e) = (Continue, hashedMiddle e)"
  by (simp add: step_defs example_defs hashed_defs)

lemma hashed_second:
  "iteration (exampleWorld resumedScript) (Suc 0) (hashedMiddle e) = (Break, hashedEnd e)"
  by (simp add: step_defs example_defs hashed_defs decimal.simps)

lemma hashed_loop:
  "run_loop (exampleWorld resumedScript) 0 (hashedStart e) = (None, hashedEnd e)"
  using run_loop_Continue [OF hashed_first, of e] run_loop_Break [OF hashed_second, of e]
  by simp

lemma hashed_options:
  "applyOpts [Some (WithHeaders []), Some (WithExpectedHash 3 e), None]
     (newDownloader (exampleWorld resumedScript) exampleHeap exampleURL) = Some (hashedStart e)"
  by (simp add: callOpt_def hashed_defs newDownloader_def)

lemma hashed_sum: "Sum (heap (hashedEnd e) 3) = [45]"
  by (simp add: hashed_defs Sum_def example_defs)

text \<open>
  With one retry allowed and a server whose transfers both break, the session ends with
  ErrRetryParametersExceeded after two requests: the budget works for failures of the
  copy.
\<close>

lemma broken_copies_exhaust_budget:
  "\<exists>d'. DownloadURL (exampleWorld breakingScript) exampleHeap exampleURL
            [Some (WithRetryParameters (DefaultRetryParameters\<lparr>MaxRetries := 1\<rparr>))]
          = Returned (Some ErrRetryParametersExceeded) d'
        \<and> length (requests d') = 2 \<and> waitCalls d' = [4, 5] \<and> timers d' = [250000000]
        \<and> retryCtr (retryParameters d') = 1"
  by (simp add: DownloadURL_def run_def progressReportLoop_panics_def callOpt_def run_loop.simps
      closeDeferred_def breakingScript_def step_defs example_defs decimal.simps)

section \<open>The claims about the driver\<close>

text \<open>
  Claim C3: when an attempt of a session ends in an error of runInner, run returns that
  error at once, and the retry parameters, the calls of Wait and the timers are those the
  attempt found: no wait, no retry consumed. In particular, in a session that started with
  no bytes committed (over responses framed as net/http frames them), an attempt with a
  committed offset above 0 that is answered with any status other than 206 ends the
  session with the error for that status, the session otherwise as the attempt found it
  but for the request sent. (A session whose progress goroutine panics has no result at
  all.)
\<close>

theorem resume_rejected_fails_fast:
  assumes at: "stateAt w d0 n = Some d"
  shows "(\<forall>err d1. runInner w n d = (Inl err, d1) \<longrightarrow>
            run w d0 = (if progressReportLoop_panics d0 then Panic
                        else Returned (Some err) (closeDeferred d1))
          \<and> retryParameters d1 = retryParameters d
          \<and> waitCalls d1 = waitCalls d \<and> timers d1 = timers d)
       \<and> (count d0 = 0 \<and> (\<forall>m req. framed (httpClient d0 m req))
          \<and> newRequestOK w (url d) \<and> 0 < count d
          \<and> httpClient d n (newRequest d) = Response resp
          \<and> StatusCode resp \<noteq> StatusPartialContent \<longrightarrow>
            run w d0 =
              (if progressReportLoop_panics d0 then Panic
               else Returned
                 (Some (if StatusCode resp = StatusBadGateway then ErrPlain BadGateway
                        else ErrNonRetryable (StatusSubsequentRead (StatusCode resp))))
                 (closeDeferred (d\<lparr>requests := requests d @ [newRequest d]\<rparr>))))"
proof (intro conjI allI impI)
  fix err d1
  assume ri: "runInner w n d = (Inl err, d1)"
  have "run_loop w 0 d0 = run_loop w n d"
    using at by (rule stateAt_run_loop)
  also have "\<dots> = (Some err, d1)"
    using ri by (simp add: run_loop_Return iteration_runInner_error)
  finally show "run w d0 = (if progressReportLoop_panics d0 then Panic
                        else Returned (Some err) (closeDeferred d1))"
    by (simp add: run_def)
  show "retryParameters d1 = retryParameters d"
    using runInner_frame(1) [of w n d] ri by simp
  show "waitCalls d1 = waitCalls d"
    using runInner_frame(2) [of w n d] ri by simp
  show "timers d1 = timers d"
    using runInner_frame(3) [of w n d] ri by simp
next
  assume a: "count d0 = 0 \<and> (\<forall>m req. framed (httpClient d0 m req))
          \<and> newRequestOK w (url d) \<and> 0 < count d
          \<and> httpClient d n (newRequest d) = Response resp
          \<and> StatusCode resp \<noteq> StatusPartialContent"
  then have "resumable d0"
    by (simp add: resumable_def)
  with a at have "resumable d"
    by (blast intro: stateAt_resumable)
  with a have "contentLength d \<noteq> 0"
    by (auto simp: resumable_def split: if_splits)
  with a have ri: "runInner w n d =
           (Inl (if StatusCode resp = StatusBadGateway then ErrPlain BadGateway
                 else ErrNonRetryable (StatusSubsequentRead (StatusCode resp))),
            d\<lparr>requests := requests d @ [newRequest d]\<rparr>)"
    by (intro runInner_status_not_partial) simp_all
  have "run_loop w 0 d0 = run_loop w n d"
    using at by (rule stateAt_run_loop)
  also have "\<dots> = (Some (if StatusCode resp = StatusBadGateway then ErrPlain BadGateway
                 else ErrNonRetryable (StatusSubsequentRead (StatusCode resp))),
            d\<lparr>requests := requests d @ [newRequest d]\<rparr>)"
    using ri by (simp add: run_loop_Return iteration_runInner_error)
  finally show "run w d0 =
              (if progressReportLoop_panics d0 then Panic
               else Returned
                 (Some (if StatusCode resp = StatusBadGateway then ErrPlain BadGateway
                        else ErrNonRetryable (StatusSubsequentRead (StatusCode resp))))
                 (closeDeferred (d\<lparr>requests := requests d @ [newRequest d]\<rparr>)))"
    by (simp add: run_def)
qed

theorem resume_rejected_fails_fast_witness:
  "stateAt (exampleWorld refusedScript) (newDownloader (exampleWorld refusedScript) exampleHeap exampleURL) (Suc 0)
     = Some (afterFirstBreak refusedScript)
   \<and> 0 < count (afterFirstBreak refusedScript)
   \<and> httpClient (afterFirstBreak refusedScript) (Suc 0) (newRequest (afterFirstBreak refusedScript))
       = Response (plainResponse StatusOK)
   \<and> run (exampleWorld refusedScript) (newDownloader (exampleWorld refusedScript) exampleHeap exampleURL)
       = Returned (Some (ErrNonRetryable (StatusSubsequentRead StatusOK)))
          ((afterFirstBreak refusedScript)
            \<lparr>requests := [\<lparr>reqURL = exampleURL, reqHeaderSet = []\<rparr>,
                          \<lparr>reqURL = exampleURL, reqHeaderSet = [(''Range'', ''bytes=4-'')]\<rparr>],
             closed := [0]\<rparr>)"
proof -
  let ?w = "exampleWorld refusedScript"
  let ?start = "newDownloader ?w exampleHeap exampleURL"
  let ?mid = "afterFirstBreak refusedScript"
  have at: "stateAt ?w ?start (Suc 0) = Some ?mid"
    by (simp add: refused_first)
  have "\<forall>r\<in>set refusedScript. framed r"
    by (simp add: refusedScript_def framed_def fullResponse_def plainResponse_def)
  then have fr: "\<forall>m req. framed (httpClient ?start m req)"
    by (simp add: newDownloader_def exampleWorld_def framed_scripted)
  have h: "count ?start = 0" "newRequestOK ?w (url ?mid)" "0 < count ?mid"
    "httpClient ?mid (Suc 0) (newRequest ?mid) = Response (plainResponse StatusOK)"
    "StatusCode (plainResponse StatusOK) \<noteq> StatusPartialContent"
    by (simp_all add: example_defs refusedScript_def)
  have nr: "newRequest ?mid = \<lparr>reqURL = exampleURL, reqHeaderSet = [(''Range'', ''bytes=4-'')]\<rparr>"
    by (simp add: newRequest_def example_defs refusedScript_def rangeHeader_def decimal.simps)
  show ?thesis
    using resume_rejected_fails_fast [OF at, of "plainResponse StatusOK"] at fr h nr
    by (simp add: closeDeferred_def progressReportLoop_panics_def)
       (simp add: example_defs refusedScript_def)
qed

text \<open>
  Claim C4: on a response with status 206 to an attempt that has a content length
  recorded, runInner scans the lower-cased Content-Range header with the format
  \<^verbatim>\<open>bytes %d-%d/%d\<close>. A header that does not scan is a non-retryable failure. One that
  scans gives back the body, still open, exactly when start is the requested offset, end
  is the recorded content length minus one and total is the recorded content length; in
  every other case the result is a non-retryable failure and the body is closed. The
  three comparisons are made on the 64-bit values.
\<close>

theorem range_validation:
  assumes "newRequestOK w (url d)" and "contentLength d \<noteq> 0"
    and "httpClient d i (newRequest d) = Response resp"
    and "StatusCode resp = StatusPartialContent"
  shows "(Sscanf w (ToLower w (HeaderGet resp contentRangeHeader)) ''bytes %d-%d/%d'' = None \<longrightarrow>
            runInner w i d =
              (Inl (ErrNonRetryable ParseContentRange),
               d\<lparr>requests := requests d @ [newRequest d], closed := closed d @ [i]\<rparr>))
       \<and> (\<forall>respStart respEnd respTotal.
            Sscanf w (ToLower w (HeaderGet resp contentRangeHeader)) ''bytes %d-%d/%d''
              = Some (respStart, respEnd, respTotal) \<longrightarrow>
            (if respStart = count d \<and> respEnd = contentLength d - 1 \<and> respTotal = contentLength d
             then runInner w i d = (Inr (Body resp), d\<lparr>requests := requests d @ [newRequest d]\<rparr>)
             else (\<exists>err. fst (runInner w i d) = Inl err \<and> nonRetryable err)
                \<and> closed (snd (runInner w i d)) = closed d @ [i]))"
  using assms by (auto simp: runInner_def validateRange_def Let_def)

theorem range_validation_witness:
  "newRequestOK (exampleWorld resumedScript) (url (afterFirstBreak resumedScript))
   \<and> contentLength (afterFirstBreak resumedScript) \<noteq> 0
   \<and> httpClient (afterFirstBreak resumedScript) (Suc 0) (newRequest (afterFirstBreak resumedScript))
       = Response (partialResponse ''bytes 4-8/9'' [[5, 6], [7, 8, 9]] False)
   \<and> Sscanf (exampleWorld resumedScript)
        (ToLower (exampleWorld resumedScript)
          (HeaderGet (partialResponse ''bytes 4-8/9'' [[5, 6], [7, 8, 9]] False) contentRangeHeader))
        ''bytes %d-%d/%d'' = Some (4, 8, 9)
   \<and> runInner (exampleWorld resumedScript) (Suc 0) (afterFirstBreak resumedScript)
       = (Inr \<lparr>chunks = [[5, 6], [7, 8, 9]], readErr = False\<rparr>,
          (afterFirstBreak resumedScript)
            \<lparr>requests := [\<lparr>reqURL = exampleURL, reqHeaderSet = []\<rparr>,
                          \<lparr>reqURL = exampleURL, reqHeaderSet = [(''Range'', ''bytes=4-'')]\<rparr>]\<rparr>)
   \<and> Sscanf (exampleWorld garbledScript)
        (ToLower (exampleWorld garbledScript)
          (HeaderGet (partialResponse ''bytes */9'' [] False) contentRangeHeader))
        ''bytes %d-%d/%d'' = None
   \<and> runInner (exampleWorld garbledScript) (Suc 0) (afterFirstBreak garbledScript)
       = (Inl (ErrNonRetryable ParseContentRange),
          (afterFirstBreak garbledScript)
            \<lparr>requests := [\<lparr>reqURL = exampleURL, reqHeaderSet = []\<rparr>,
                          \<lparr>reqURL = exampleURL, reqHeaderSet = [(''Range'', ''bytes=4-'')]\<rparr>],
             closed := [Suc 0]\<rparr>)"
proof -
  let ?good = "partialResponse ''bytes 4-8/9'' [[5, 6], [7, 8, 9]] False"
  let ?bad = "partialResponse ''bytes */9'' [] False"
  have g: "newRequestOK (exampleWorld resumedScript) (url (afterFirstBreak resumedScript))"
    "contentLength (afterFirstBreak resumedScript) \<noteq> 0"
    "httpClient (afterFirstBreak resumedScript) (Suc 0) (newRequest (afterFirstBreak resumedScript))
       = Response ?good"
    "StatusCode ?good = StatusPartialContent"
    by (simp_all add: example_defs garbledScript_def)
  have b: "newRequestOK (exampleWorld garbledScript) (url (afterFirstBreak garbledScript))"
    "contentLength (afterFirstBreak garbledScript) \<noteq> 0"
    "httpClient (afterFirstBreak garbledScript) (Suc 0) (newRequest (afterFirstBreak garbledScript))
       = Response ?bad"
    "StatusCode ?bad = StatusPartialContent"
    by (simp_all add: example_defs garbledScript_def)
  have sg: "Sscanf (exampleWorld resumedScript)
        (ToLower (exampleWorld resumedScript) (HeaderGet ?good contentRangeHeader))
        ''bytes %d-%d/%d'' = Some (4, 8, 9)"
    by (simp add: example_defs garbledScript_def contentRangeHeader_def)
  have sb: "Sscanf (exampleWorld garbledScript)
        (ToLower (exampleWorld garbledScript) (HeaderGet ?bad contentRangeHeader))
        ''bytes %d-%d/%d'' = None"
    by (simp add: example_defs garbledScript_def contentRangeHeader_def)
  have nr: "newRequest (afterFirstBreak resumedScript)
              = \<lparr>reqURL = exampleURL, reqHeaderSet = [(''Range'', ''bytes=4-'')]\<rparr>"
    "newRequest (afterFirstBreak garbledScript)
              = \<lparr>reqURL = exampleURL, reqHeaderSet = [(''Range'', ''bytes=4-'')]\<rparr>"
    by (simp_all add: newRequest_def example_defs garbledScript_def rangeHeader_def decimal.simps)
  have cnt: "count (afterFirstBreak resumedScript) = 4"
    "contentLength (afterFirstBreak resumedScript) = 9"
    "requests (afterFirstBreak resumedScript) = [\<lparr>reqURL = exampleURL, reqHeaderSet = []\<rparr>]"
    "requests (afterFirstBreak garbledScript) = [\<lparr>reqURL = exampleURL, reqHeaderSet = []\<rparr>]"
    "closed (afterFirstBreak garbledScript) = []"
    "Body ?good = \<lparr>chunks = [[5, 6], [7, 8, 9]], readErr = False\<rparr>"
    by (simp_all add: example_defs garbledScript_def)
  show ?thesis
    using range_validation [OF g] range_validation [OF b] g b sg sb
    by (simp add: nr cnt)
qed

text \<open>
  Claim C5, as stated, at a first attempt that the server answers with 502 and a declared
  length of 9: the status is not 200, yet the error is the plain bad-gateway error, not a
  non-retryable one, and no content length is recorded.
\<close>

theorem first_attempt_counterexample:
  "count (newDownloader (exampleWorld gatewayScript) exampleHeap exampleURL) = 0
   \<and> contentLength (newDownloader (exampleWorld gatewayScript) exampleHeap exampleURL) = 0
   \<and> httpClient (newDownloader (exampleWorld gatewayScript) exampleHeap exampleURL) 0
        (newRequest (newDownloader (exampleWorld gatewayScript) exampleHeap exampleURL))
       = Response (plainResponse StatusBadGateway)
   \<and> StatusCode (plainResponse StatusBadGateway) \<noteq> StatusOK
   \<and> ContentLength (plainResponse StatusBadGateway) = 9
   \<and> fst (runInner (exampleWorld gatewayScript) 0
             (newDownloader (exampleWorld gatewayScript) exampleHeap exampleURL))
       = Inl (ErrPlain BadGateway)
   \<and> \<not> nonRetryable (ErrPlain BadGateway)
   \<and> contentLength (snd (runInner (exampleWorld gatewayScript) 0
             (newDownloader (exampleWorld gatewayScript) exampleHeap exampleURL))) = 0"
  by (simp add: runInner_def newRequest_def Let_def example_defs gatewayScript_def)

text \<open>
  Claim C5, amended: every request is the URL with the configured headers set, followed
  by \<^verbatim>\<open>Range: bytes=<offset>-\<close> exactly when the committed offset is above 0, and it is
  sent whenever it can be built. On the very first attempt (offset 0, no content length
  recorded) the request is a plain GET with the configured headers; a response with status
  502 gives the plain bad-gateway error and records nothing; any other response has its
  declared content length recorded, and gives its body when the status is 200 and a
  non-retryable failure otherwise.
\<close>

theorem first_attempt:
  "reqURL (newRequest d) = url d
   \<and> reqHeaderSet (newRequest d) =
       headers d @ (if 0 < count d
                    then [(rangeHeader, ''bytes='' @ decimal (unat (count d)) @ ''-'')] else [])
   \<and> (newRequestOK w (url d) \<longrightarrow> requests (snd (runInner w i d)) = requests d @ [newRequest d])
   \<and> (newRequestOK w (url d) \<and> count d = 0 \<and> contentLength d = 0
        \<and> httpClient d i (newRequest d) = Response resp \<longrightarrow>
        reqHeaderSet (newRequest d) = headers d
        \<and> (if StatusCode resp = StatusBadGateway
           then runInner w i d = (Inl (ErrPlain BadGateway), d\<lparr>requests := requests d @ [newRequest d]\<rparr>)
           else contentLength (snd (runInner w i d)) = ContentLength resp
              \<and> fst (runInner w i d) =
                  (if StatusCode resp = StatusOK then Inr (Body resp)
                   else Inl (ErrNonRetryable (StatusFirstRead (StatusCode resp))))))"
proof (intro conjI impI)
  show "reqURL (newRequest d) = url d"
    by (simp add: newRequest_def)
  show "reqHeaderSet (newRequest d) =
       headers d @ (if 0 < count d
                    then [(rangeHeader, ''bytes='' @ decimal (unat (count d)) @ ''-'')] else [])"
    by (simp add: newRequest_def)
  show "requests (snd (runInner w i d)) = requests d @ [newRequest d]" if "newRequestOK w (url d)"
    using that by (rule runInner_requests)
next
  assume a: "newRequestOK w (url d) \<and> count d = 0 \<and> contentLength d = 0
        \<and> httpClient d i (newRequest d) = Response resp"
  then show "reqHeaderSet (newRequest d) = headers d"
    by (simp add: newRequest_def)
  from a have "runInner w i d =
           (if StatusCode resp = StatusBadGateway
            then (Inl (ErrPlain BadGateway), d\<lparr>requests := requests d @ [newRequest d]\<rparr>)
            else (if StatusCode resp = StatusOK then Inr (Body resp)
                  else Inl (ErrNonRetryable (StatusFirstRead (StatusCode resp))),
                  d\<lparr>requests := requests d @ [newRequest d],
                    contentLength := ContentLength resp\<rparr>))"
    by (intro runInner_first_read) simp_all
  then show "if StatusCode resp = StatusBadGateway
           then runInner w i d = (Inl (ErrPlain BadGateway), d\<lparr>requests := requests d @ [newRequest d]\<rparr>)
           else contentLength (snd (runInner w i d)) = ContentLength resp
              \<and> fst (runInner w i d) =
                  (if StatusCode resp = StatusOK then Inr (Body resp)
                   else Inl (ErrNonRetryable (StatusFirstRead (StatusCode resp))))"
    by simp
qed

theorem first_attempt_witness:
  "newRequestOK (exampleWorld resumedScript) (url (newDownloader (exampleWorld resumedScript) exampleHeap exampleURL))
   \<and> count (newDownloader (exampleWorld resumedScript) exampleHeap exampleURL) = 0
   \<and> contentLength (newDownloader (exampleWorld resumedScript) exampleHeap exampleURL) = 0
   \<and> httpClient (newDownloader (exampleWorld resumedScript) exampleHeap exampleURL) 0
        (newRequest (newDownloader (exampleWorld resumedScript) exampleHeap exampleURL))
       = Response (fullResponse [[1, 2, 3], [4]] True)
   \<and> newRequest (newDownloader (exampleWorld resumedScript) exampleHeap exampleURL)
       = \<lparr>reqURL = exampleURL, reqHeaderSet = []\<rparr>
   \<and> contentLength (snd (runInner (exampleWorld resumedScript) 0
        (newDownloader (exampleWorld resumedScript) exampleHeap exampleURL))) = 9
   \<and> fst (runInner (exampleWorld resumedScript) 0
        (newDownloader (exampleWorld resumedScript) exampleHeap exampleURL))
       = Inr \<lparr>chunks = [[1, 2, 3], [4]], readErr = True\<rparr>
   \<and> 0 < count (afterFirstBreak resumedScript)
   \<and> reqHeaderSet (newRequest (afterFirstBreak resumedScript)) = [(''Range'', ''bytes=4-'')]
   \<and> fst (runInner (exampleWorld missingScript) 0
        (newDownloader (exampleWorld missingScript) exampleHeap exampleURL))
       = Inl (ErrNonRetryable (StatusFirstRead 404))"
proof -
  let ?start = "newDownloader (exampleWorld resumedScript) exampleHeap exampleURL"
  let ?lost = "newDownloader (exampleWorld missingScript) exampleHeap exampleURL"
  have h: "newRequestOK (exampleWorld resumedScript) (url ?start)"
    "count ?start = 0" "contentLength ?start = 0"
    "httpClient ?start 0 (newRequest ?start) = Response (fullResponse [[1, 2, 3], [4]] True)"
    "0 < count (afterFirstBreak resumedScript)"
    by (simp_all add: example_defs missingScript_def)
  have l: "newRequestOK (exampleWorld missingScript) (url ?lost)"
    "count ?lost = 0" "contentLength ?lost = 0"
    "httpClient ?lost 0 (newRequest ?lost) = Response (plainResponse 404)"
    by (simp_all add: example_defs missingScript_def)
  have v: "StatusCode (fullResponse [[1, 2, 3], [4]] True) = StatusOK"
    "ContentLength (fullResponse [[1, 2, 3], [4]] True) = 9"
    "Body (fullResponse [[1, 2, 3], [4]] True) = \<lparr>chunks = [[1, 2, 3], [4]], readErr = True\<rparr>"
    "StatusCode (plainResponse 404) = 404"
    "url ?start = exampleURL" "headers ?start = []"
    "headers (afterFirstBreak resumedScript) = []"
    "decimal (unat (count (afterFirstBreak resumedScript))) = ''4''"
    by (simp_all add: example_defs decimal.simps)
  show ?thesis
    using first_attempt [of ?start "exampleWorld resumedScript" 0 "fullResponse [[1, 2, 3], [4]] True"]
      first_attempt [of "afterFirstBreak resumedScript" "exampleWorld resumedScript" 1 undefined]
      first_attempt [of ?lost "exampleWorld missingScript" 0 "plainResponse 404"]
      h l
    by (simp add: v rangeHeader_def)
qed

text \<open>
  Claim C2 at a server that answers every request with 502, under the default parameters
  (MaxRetries 5): the session ends with the plain bad-gateway error after one request,
  with no call of Wait, no timer and the retry counter at 0. The claim has it end with
  ErrRetryParametersExceeded after six requests. The same happens when the transport
  fails at the first request.
\<close>

theorem bad_gateway_ends_session:
  "DownloadURL (exampleWorld gatewayScript) exampleHeap exampleURL []
     = Returned (Some (ErrPlain BadGateway))
         ((newDownloader (exampleWorld gatewayScript) exampleHeap exampleURL)
            \<lparr>requests := [\<lparr>reqURL = exampleURL, reqHeaderSet = []\<rparr>]\<rparr>)
   \<and> retryCtr (retryParameters (newDownloader (exampleWorld gatewayScript) exampleHeap exampleURL)) = 0
   \<and> MaxRetries (retryParameters (newDownloader (exampleWorld gatewayScript) exampleHeap exampleURL)) = 5
   \<and> waitCalls (newDownloader (exampleWorld gatewayScript) exampleHeap exampleURL) = []
   \<and> timers (newDownloader (exampleWorld gatewayScript) exampleHeap exampleURL) = []
   \<and> DownloadURL (exampleWorld []) exampleHeap exampleURL []
     = Returned (Some (ErrPlain DoRequest))
         ((newDownloader (exampleWorld []) exampleHeap exampleURL)
            \<lparr>requests := [\<lparr>reqURL = exampleURL, reqHeaderSet = []\<rparr>]\<rparr>)"
proof -
  have "iteration (exampleWorld gatewayScript) 0
          (newDownloader (exampleWorld gatewayScript) exampleHeap exampleURL)
        = (Return (ErrPlain BadGateway),
           (newDownloader (exampleWorld gatewayScript) exampleHeap exampleURL)
             \<lparr>requests := [\<lparr>reqURL = exampleURL, reqHeaderSet = []\<rparr>]\<rparr>)"
    by (simp add: step_defs example_defs gatewayScript_def)
  then have one: "run_loop (exampleWorld gatewayScript) 0
          (newDownloader (exampleWorld gatewayScript) exampleHeap exampleURL)
        = (Some (ErrPlain BadGateway),
           (newDownloader (exampleWorld gatewayScript) exampleHeap exampleURL)
             \<lparr>requests := [\<lparr>reqURL = exampleURL, reqHeaderSet = []\<rparr>]\<rparr>)"
    by (rule run_loop_Return)
  have "iteration (exampleWorld []) 0 (newDownloader (exampleWorld []) exampleHeap exampleURL)
        = (Return (ErrPlain DoRequest),
           (newDownloader (exampleWorld []) exampleHeap exampleURL)
             \<lparr>requests := [\<lparr>reqURL = exampleURL, reqHeaderSet = []\<rparr>]\<rparr>)"
    by (simp add: step_defs example_defs gatewayScript_def)
  then have two: "run_loop (exampleWorld []) 0 (newDownloader (exampleWorld []) exampleHeap exampleURL)
        = (Some (ErrPlain DoRequest),
           (newDownloader (exampleWorld []) exampleHeap exampleURL)
             \<lparr>requests := [\<lparr>reqURL = exampleURL, reqHeaderSet = []\<rparr>]\<rparr>)"
    by (rule run_loop_Return)
  show ?thesis
    using one two
    by (simp add: DownloadURL_def run_def progressReportLoop_panics_def closeDeferred_def
        newDownloader_def DefaultRetryParameters_def)
qed

text \<open>
  Claim C9: when the loop of run has ended without an error, the final functions are
  called in the order of their registration, each once: all of them when none fails, with
  result success; up to and including the first one that fails otherwise, and its error is
  the result of run. The check of WithExpectedHash fails exactly when the digest of its
  hasher differs from the expected digest, with an ErrHashMismatch that carries both. (A
  session whose progress goroutine panics has no result at all.)
\<close>

theorem finalization:
  assumes loop: "run_loop w 0 d = (None, d1)"
  shows "((\<forall>f\<in>set (finalFuncs d). callFinal (heap d1) f = None) \<longrightarrow>
            run w d =
              (if progressReportLoop_panics d then Panic
               else Returned None
                      (closeDeferred (d1\<lparr>finalCalls := finalCalls d @ finalFuncs d\<rparr>))))
       \<and> (finalFuncs d = ps @ f # rest \<and> (\<forall>g\<in>set ps. callFinal (heap d1) g = None)
            \<and> callFinal (heap d1) f = Some err \<longrightarrow>
            run w d =
              (if progressReportLoop_panics d then Panic
               else Returned (Some err)
                      (closeDeferred (d1\<lparr>finalCalls := finalCalls d @ ps @ [f]\<rparr>))))
       \<and> callFinal hp (ExpectedHashCheck h expected) =
            (if Sum (hp h) = expected then None
             else Some (ErrHashMismatch expected (Sum (hp h))))"
proof (intro conjI impI)
  have fr: "finalFuncs d1 = finalFuncs d" "finalCalls d1 = finalCalls d"
    using run_loop_frame [of w 0 d] loop by simp_all
  show "run w d =
          (if progressReportLoop_panics d then Panic
           else Returned None (closeDeferred (d1\<lparr>finalCalls := finalCalls d @ finalFuncs d\<rparr>)))"
    if "\<forall>f\<in>set (finalFuncs d). callFinal (heap d1) f = None"
    using that loop fr runFinalFuncs_all_pass [of "finalFuncs d" d1]
    by (simp add: run_def)
  show "run w d =
          (if progressReportLoop_panics d then Panic
           else Returned (Some err) (closeDeferred (d1\<lparr>finalCalls := finalCalls d @ ps @ [f]\<rparr>)))"
    if "finalFuncs d = ps @ f # rest \<and> (\<forall>g\<in>set ps. callFinal (heap d1) g = None)
            \<and> callFinal (heap d1) f = Some err"
    using that loop fr runFinalFuncs_first_error [of ps d1 f err rest]
    by (simp add: run_def)
  show "callFinal hp (ExpectedHashCheck h expected) =
            (if Sum (hp h) = expected then None
             else Some (ErrHashMismatch expected (Sum (hp h))))"
    by (simp add: callFinal_def Let_def)
qed

theorem finalization_witness:
  "run_loop (exampleWorld resumedScript) 0 (hashedStart [45]) = (None, hashedEnd [45])
   \<and> callFinal (heap (hashedEnd [45])) (ExpectedHashCheck 3 [45]) = None
   \<and> run (exampleWorld resumedScript) (hashedStart [45])
       = Returned None
           ((hashedEnd [45])\<lparr>finalCalls := [ExpectedHashCheck 3 [45]], closed := [1, 0]\<rparr>)
   \<and> run_loop (exampleWorld resumedScript) 0 (hashedStart []) = (None, hashedEnd [])
   \<and> callFinal (heap (hashedEnd [])) (ExpectedHashCheck 3 []) = Some (ErrHashMismatch [] [45])
   \<and> run (exampleWorld resumedScript) (hashedStart [])
       = Returned (Some (ErrHashMismatch [] [45]))
           ((hashedEnd [])\<lparr>finalCalls := [ExpectedHashCheck 3 []], closed := [1, 0]\<rparr>)"
proof -
  have pass: "callFinal (heap (hashedEnd [45])) (ExpectedHashCheck 3 [45]) = None"
    and fail: "callFinal (heap (hashedEnd [])) (ExpectedHashCheck 3 []) = Some (ErrHashMismatch [] [45])"
    by (simp_all add: callFinal_def hashed_sum)
  have fs: "finalFuncs (hashedStart e) = [] @ ExpectedHashCheck 3 e # []"
    "finalCalls (hashedStart e) = []" "\<not> progressReportLoop_panics (hashedStart e)" for e
    by (simp_all add: hashed_defs newDownloader_def progressReportLoop_panics_def)
  have cl: "closeDeferred ((hashedEnd e)\<lparr>finalCalls := [ExpectedHashCheck 3 e]\<rparr>)
              = (hashedEnd e)\<lparr>finalCalls := [ExpectedHashCheck 3 e], closed := [1, 0]\<rparr>" for e
    by (simp add: closeDeferred_def hashed_defs newDownloader_def)
  show ?thesis
    using finalization [OF hashed_loop, of "[45]" "[]" "ExpectedHashCheck 3 [45]" "[]" undefined]
      finalization [OF hashed_loop, of "[]" "[]" "ExpectedHashCheck 3 []" "[]" "ErrHashMismatch [] [45]"]
      pass fail hashed_loop
    by (simp add: fs cl)
qed

text \<open>
  Claim C10: DownloadURL skips the nil entries of its options. A call with a nil entry
  anywhere in the list does what the call without that entry does, session and result,
  and so does the call with all nil entries left out; applying the options never calls a
  nil function value, so no nil entry makes the configuration panic.
\<close>

theorem nil_options_skipped:
  "DownloadURL w hp u (xs @ None # ys) = DownloadURL w hp u (xs @ ys)
   \<and> DownloadURL w hp u opts = DownloadURL w hp u (filter (\<lambda>opt. opt \<noteq> None) opts)
   \<and> applyOpts (xs @ None # ys) d = applyOpts (xs @ ys) d
   \<and> applyOpts opts d \<noteq> None"
proof (intro conjI)
  show "DownloadURL w hp u (xs @ None # ys) = DownloadURL w hp u (xs @ ys)"
    by (simp add: DownloadURL_def applyOpts_nil)
  show "DownloadURL w hp u opts = DownloadURL w hp u (filter (\<lambda>opt. opt \<noteq> None) opts)"
    using applyOpts_filter [of opts "newDownloader w hp u"] by (simp add: DownloadURL_def)
  show "applyOpts (xs @ None # ys) d = applyOpts (xs @ ys) d"
    by (rule applyOpts_nil)
  show "applyOpts opts d \<noteq> None"
    using applyOpts_total [of opts d] by auto
qed

theorem nil_options_skipped_witness:
  "DownloadURL (exampleWorld resumedScript) exampleHeap exampleURL
       ([Some (WithHeaders [])] @ None # [None])
     = DownloadURL (exampleWorld resumedScript) exampleHeap exampleURL ([Some (WithHeaders [])] @ [None])
   \<and> applyOpts ([Some (WithHeaders [])] @ None # [None])
        (newDownloader (exampleWorld resumedScript) exampleHeap exampleURL)
     = applyOpts ([Some (WithHeaders [])] @ [None])
        (newDownloader (exampleWorld resumedScript) exampleHeap exampleURL)
   \<and> applyOpts [Some (WithHeaders []), Some (WithExpectedHash 3 [45]), None]
        (newDownloader (exampleWorld resumedScript) exampleHeap exampleURL) = Some (hashedStart [45])
   \<and> applyOpts [Some (WithHeaders []), Some (WithExpectedHash 3 [45]), None]
        (newDownloader (exampleWorld resumedScript) exampleHeap exampleURL) \<noteq> None"
  using nil_options_skipped [of "exampleWorld resumedScript" exampleHeap exampleURL
      "[Some (WithHeaders [])]" "[None]"
      "[Some (WithHeaders []), Some (WithExpectedHash 3 [45]), None]"
      "newDownloader (exampleWorld resumedScript) exampleHeap exampleURL"]
    hashed_options [of "[45]"]
  by blast

text \<open>
  Claim C1: take a server that is truthful about a resource (shorter than \<open>2^63\<close> bytes) in
  every response, however often and wherever it breaks a transfer. If DownloadURL returns
  success, whatever the options, the bytes committed to the writer are the resource, once
  and in order. If moreover a hasher that is fresh and attached once is attached by
  WithExpectedHash, it has absorbed exactly these bytes, so its digest is the digest of
  the resource hashed in one pass, and that is the expected digest.
\<close>

theorem download_exact:
  assumes conf: "applyOpts opts (newDownloader w hp u) = Some d"
    and truth: "\<forall>n req. truthful w res (httpClient d n req)"
    and len: "length res < 2 ^ 63"
    and ok: "DownloadURL w hp u opts = Returned None d'"
  shows "sink d' = res
       \<and> (Some (WithExpectedHash h expected) \<in> set opts
          \<and> count_list (concat (map attaches opts)) h = 1
          \<and> absorbed (hp h) = [] \<longrightarrow>
            absorbed (heap d' h) = res
          \<and> Sum (heap d' h) = digest (hp h) res
          \<and> expected = digest (hp h) res)"
proof -
  let ?start = "d\<lparr>count := 0\<rparr>"
  have cfg: "hashers d = concat (map attaches opts)"
    "finalFuncs d = concat (map registers opts)"
    "sink d = []" "heap d = hp" "contentLength d = 0"
    using applyOpts_frame [OF conf] by (simp_all add: newDownloader_def)
  have inv: "delivered res ?start"
    using cfg by (simp add: delivered_def)
  have truth': "\<forall>n req. truthful w res (httpClient ?start n req)"
    using truth by simp
  from ok conf have r: "run w ?start = Returned None d'"
    by (simp add: DownloadURL_def)
  then obtain d1 where loop: "run_loop w 0 ?start = (None, d1)"
    and fin: "fst (runFinalFuncs (finalFuncs d1) d1) = None"
    and d': "d' = closeDeferred (snd (runFinalFuncs (finalFuncs d1) d1))"
    by (auto simp: run_def split: if_splits prod.splits option.splits)
  have s1: "sink d1 = res"
    using run_loop_delivered [OF inv len truth' loop] .
  have fs: "finalFuncs d1 = finalFuncs d"
    using run_loop_frame [of w 0 ?start] loop by simp
  have snk: "sink d' = sink d1" and hp': "heap d' = heap d1"
    using d' runFinalFuncs_frame [of "finalFuncs d1" d1] by (simp_all add: closeDeferred_def)
  have whole: "sink d' = res"
    using snk s1 by simp
  have hashed: "absorbed (heap d' h) = res \<and> Sum (heap d' h) = digest (hp h) res
      \<and> expected = digest (hp h) res"
    if via: "Some (WithExpectedHash h expected) \<in> set opts"
      and once: "count_list (concat (map attaches opts)) h = 1"
      and fresh: "absorbed (hp h) = []"
  proof -
    have "mirrors h (digest (hp h)) ?start"
      using cfg once fresh by (simp add: mirrors_def)
    then have "mirrors h (digest (hp h)) (snd (run_loop w 0 ?start))"
      by (rule run_loop_mirrors)
    then have ab: "absorbed (heap d1 h) = res" and dg: "digest (heap d1 h) = digest (hp h)"
      using loop s1 by (simp_all add: mirrors_def)
    have "ExpectedHashCheck h expected \<in> set (finalFuncs d1)"
      using via fs cfg(2) by (force simp: image_iff)
    with fin have "callFinal (heap d1) (ExpectedHashCheck h expected) = None"
      by (rule runFinalFuncs_None)
    then have "Sum (heap d1 h) = expected"
      by (simp add: callFinal_def Let_def split: if_splits)
    then show ?thesis
      using hp' ab dg by (simp add: Sum_def)
  qed
  show ?thesis
    using whole hashed by blast
qed

theorem download_exact_witness:
  "applyOpts [Some (WithHeaders []), None, None]
        (newDownloader (exampleWorld resumedScript) exampleHeap exampleURL)
       = Some (newDownloader (exampleWorld resumedScript) exampleHeap exampleURL)
   \<and> (\<forall>n req. truthful (exampleWorld resumedScript) exampleResource
         (httpClient (newDownloader (exampleWorld resumedScript) exampleHeap exampleURL) n req))
   \<and> length exampleResource < 2 ^ 63
   \<and> DownloadURL (exampleWorld resumedScript) exampleHeap exampleURL [Some (WithHeaders []), None, None]
       = Returned None (plainEnd\<lparr>closed := [1, 0]\<rparr>)
   \<and> sink (plainEnd\<lparr>closed := [1, 0]\<rparr>) = exampleResource
   \<and> applyOpts [Some (WithHeaders []), Some (WithExpectedHash 3 [45]), None]
        (newDownloader (exampleWorld resumedScript) exampleHeap exampleURL) = Some (hashedStart [45])
   \<and> (\<forall>n req. truthful (exampleWorld resumedScript) exampleResource (httpClient (hashedStart [45]) n req))
   \<and> Some (WithExpectedHash 3 [45]) \<in> set [Some (WithHeaders []), Some (WithExpectedHash 3 [45]), None]
   \<and> count_list (concat (map attaches [Some (WithHeaders []), Some (WithExpectedHash 3 [45]), None])) 3 = 1
   \<and> absorbed (exampleHeap 3) = []
   \<and> DownloadURL (exampleWorld resumedScript) exampleHeap exampleURL
        [Some (WithHeaders []), Some (WithExpectedHash 3 [45]), None]
       = Returned None ((hashedEnd [45])\<lparr>finalCalls := [ExpectedHashCheck 3 [45]], closed := [1, 0]\<rparr>)
   \<and> sink ((hashedEnd [45])\<lparr>finalCalls := [ExpectedHashCheck 3 [45]], closed := [1, 0]\<rparr>)
       = exampleResource
   \<and> absorbed (heap ((hashedEnd [45])\<lparr>finalCalls := [ExpectedHashCheck 3 [45]], closed := [1, 0]\<rparr>) 3)
       = exampleResource
   \<and> digest (exampleHeap 3) exampleResource = [45]"
proof -
  let ?w = "exampleWorld resumedScript"
  let ?new = "newDownloader ?w exampleHeap exampleURL"
  let ?cli = "[Some (WithHeaders []), None, None]"
  let ?opts = "[Some (WithHeaders []), Some (WithExpectedHash 3 [45]), None]"
  let ?plain = "plainEnd\<lparr>closed := [1, 0]\<rparr>"
  let ?end = "(hashedEnd [45])\<lparr>finalCalls := [ExpectedHashCheck 3 [45]], closed := [1, 0]\<rparr>"
  have script: "\<forall>r\<in>set resumedScript. truthful ?w exampleResource r"
    by (simp add: truthful_def serves_def example_defs contentRangeHeader_def word_sle_eq)
  have len: "length exampleResource < 2 ^ 63"
    by (simp add: exampleResource_def)
  \<comment> \<open>the call of the command line without a hash\<close>
  have conf0: "applyOpts ?cli ?new = Some ?new"
    by (simp add: callOpt_def newDownloader_def)
  have truth0: "\<forall>n req. truthful ?w exampleResource (httpClient ?new n req)"
    using script by (simp add: newDownloader_def exampleWorld_def truthful_scripted)
  have plain: "finalFuncs plainEnd = []" "\<not> progressReportLoop_panics ?new"
    "?new\<lparr>count := 0\<rparr> = ?new" "closeDeferred plainEnd = ?plain"
    by (simp_all add: plainEnd_def afterFirstBreak_def newDownloader_def
        progressReportLoop_panics_def closeDeferred_def)
  have ok0: "DownloadURL ?w exampleHeap exampleURL ?cli = Returned None ?plain"
    using conf0 plain_loop
    by (simp add: DownloadURL_def run_def plain del: applyOpts.simps)
  \<comment> \<open>the call with an expected hash\<close>
  have conf: "applyOpts ?opts ?new = Some (hashedStart [45])"
    by (rule hashed_options)
  have truth: "\<forall>n req. truthful ?w exampleResource (httpClient (hashedStart [45]) n req)"
    using script by (simp add: hashed_defs newDownloader_def exampleWorld_def truthful_scripted)
  have via: "Some (WithExpectedHash 3 [45]) \<in> set ?opts"
    by simp
  have once: "count_list (concat (map attaches ?opts)) 3 = 1"
    by simp
  have fresh: "absorbed (exampleHeap 3) = []"
    by (simp add: exampleHeap_def sumHasher_def)
  have pass: "callFinal (heap (hashedEnd [45])) (ExpectedHashCheck 3 [45]) = None"
    by (simp add: callFinal_def hashed_sum)
  have fs: "finalFuncs (hashedEnd [45]) = [ExpectedHashCheck 3 [45]]"
    "finalCalls (hashedEnd [45]) = []" "\<not> progressReportLoop_panics (hashedStart [45])"
    by (simp_all add: hashed_defs newDownloader_def progressReportLoop_panics_def)
  have cl: "closeDeferred ((hashedEnd [45])\<lparr>finalCalls := [ExpectedHashCheck 3 [45]]\<rparr>) = ?end"
    by (simp add: closeDeferred_def hashed_defs newDownloader_def)
  have same: "(hashedStart [45])\<lparr>count := 0\<rparr> = hashedStart [45]"
    by (simp add: hashed_defs newDownloader_def)
  have ok: "DownloadURL ?w exampleHeap exampleURL ?opts = Returned None ?end"
    using conf hashed_loop [of "[45]"] pass
    by (simp add: DownloadURL_def run_def same fs cl del: applyOpts.simps)
  have sum: "digest (exampleHeap 3) exampleResource = [45]"
    by (simp add: exampleHeap_def sumHasher_def exampleResource_def)
  show ?thesis
    using download_exact [OF conf0 truth0 len ok0]
      download_exact [OF conf truth len ok, of 3 "[45]"]
      conf0 truth0 len ok0 conf truth via once fresh ok sum
    by simp
qed

end
